theory Spec2Isabelle
  imports Complex_Main "HOL-Library.Log_Nat"
begin

section \<open>Floating-point numbers\<close>

text \<open>
  A Python float, a C double and a \<open>float32\<close> are modelled by the rational they
  denote. Every operation computes the exact result and rounds it to the nearest
  number with a 53-bit (double) or 24-bit (\<open>float32\<close>) significand, ties to the even
  significand, as IEEE 754 does. The exponent is not bounded: there is no overflow to
  infinity, no NaN and no subnormal number, so the definitions below compute what the
  program computes as long as no magnitude leaves the normal range of the format,
  which the sizes of images, windows and pixel coordinates never do. \<open>binexp x\<close> is
  the exponent of the binade of \<open>x\<close>: \<open>2 ^ binexp x \<le> |x| < 2 ^ (binexp x + 1)\<close>.
\<close>

definition binexp :: "rat \<Rightarrow> int" where
  "binexp x =
     (case quotient_of \<bar>x\<bar> of (a, b) \<Rightarrow>
        let k = bitlen a - bitlen b
        in if 2 powi k \<le> \<bar>x\<bar> then k else k - 1)"

definition round_half_even :: "rat \<Rightarrow> int" where
  "round_half_even y =
     (let f = \<lfloor>y\<rfloor>; r = y - of_int f
      in if r < 1 / 2 then f
         else if 1 / 2 < r then f + 1
         else if even f then f else f + 1)"

definition round_to :: "nat \<Rightarrow> rat \<Rightarrow> rat" where
  "round_to p x =
     (if x = 0 then 0
      else let q = 2 powi (binexp x - (int p - 1))
           in of_int (round_half_even (x / q)) * q)"

definition fl64 :: "rat \<Rightarrow> rat" where
  "fl64 x = round_to 53 x"

definition fl32 :: "rat \<Rightarrow> rat" where
  "fl32 x = round_to 24 x"


definition float_add :: "rat \<Rightarrow> rat \<Rightarrow> rat" where
  "float_add a b = fl64 (a + b)"

definition float_sub :: "rat \<Rightarrow> rat \<Rightarrow> rat" where
  "float_sub a b = fl64 (a - b)"

definition float_mul :: "rat \<Rightarrow> rat \<Rightarrow> rat" where
  "float_mul a b = fl64 (a * b)"

section \<open>Python and library primitives used by main.py\<close>

text \<open>Python integers are unbounded: \<open>int\<close>.\<close>

type_synonym point = "int \<times> int"

datatype py_error = IndexError | ZeroDivisionError | CvError

text \<open>\<open>int(x)\<close> on a float: the fractional part is dropped.\<close>

definition py_int :: "rat \<Rightarrow> int" where
  "py_int q = (if q < 0 then \<lceil>q\<rceil> else \<lfloor>q\<rfloor>)"

text \<open>The conversion of an integer to a float, as in \<open>n * 0.5\<close> or \<open>n - 0.5\<close>.\<close>

definition py_float :: "int \<Rightarrow> rat" where
  "py_float n = fl64 (of_int n)"

text \<open>
  \<open>a / b\<close> on two integers and on two floats: the quotient rounded once, raising
  on a zero divisor.
\<close>

definition int_truediv :: "int \<Rightarrow> int \<Rightarrow> py_error + rat" where
  "int_truediv a b = (if b = 0 then Inl ZeroDivisionError else Inr (fl64 (of_int a / of_int b)))"

definition float_truediv :: "rat \<Rightarrow> rat \<Rightarrow> py_error + rat" where
  "float_truediv a b = (if b = 0 then Inl ZeroDivisionError else Inr (fl64 (a / b)))"

text \<open>
  Subscription \<open>xs[i]\<close> of a list: an index from 0 to len - 1 reads from the
  front, one from -len to -1 reads from the back, any other raises \<open>IndexError\<close>.
\<close>

definition py_getitem :: "'a list \<Rightarrow> int \<Rightarrow> py_error + 'a" where
  "py_getitem xs i =
     (if 0 \<le> i \<and> i < int (length xs) then Inr (xs ! nat i)
      else if i < 0 \<and> - int (length xs) \<le> i then Inr (xs ! nat (int (length xs) + i))
      else Inl IndexError)"

text \<open>\<open>os.path.basename\<close> (POSIX): the part after the last slash.\<close>

definition basename :: "string \<Rightarrow> string" where
  "basename p = rev (takeWhile (\<lambda>c. c \<noteq> CHR ''/'') (rev p))"

text \<open>\<open>str.lower\<close> on ASCII letters and \<open>str.endswith\<close>.\<close>

definition lower_char :: "char \<Rightarrow> char" where
  "lower_char c =
     (let n = (of_char c :: nat) in if 65 \<le> n \<and> n \<le> 90 then char_of (n + 32) else c)"

definition lower :: "string \<Rightarrow> string" where
  "lower f = map lower_char f"

definition endswith :: "string \<Rightarrow> string \<Rightarrow> bool" where
  "endswith f suffix = (length suffix \<le> length f \<and> drop (length f - length suffix) f = suffix)"

text \<open>\<open>os.path.join\<close> (POSIX) of a directory and a name.\<close>

definition path_join :: "string \<Rightarrow> string \<Rightarrow> string" where
  "path_join d f =
     (if f \<noteq> [] \<and> hd f = CHR ''/'' then f
      else if d = [] \<or> last d = CHR ''/'' then d @ f
      else d @ ''/'' @ f)"

text \<open>
  \<open>QRectF(x, y, w, h)\<close> holds four doubles. \<open>QRectF.contains(point)\<close> returns false
  for a rectangle of zero width or height and otherwise accepts every point inside or
  on an edge of the rectangle, the right and bottom edges included.
\<close>

record qrectf =
  xp :: rat
  yp :: rat
  w :: rat
  h :: rat

definition qrectf_contains :: "qrectf \<Rightarrow> rat \<times> rat \<Rightarrow> bool" where
  "qrectf_contains r p =
     (let l = (if w r < 0 then float_add (xp r) (w r) else xp r);
          rr = (if w r < 0 then xp r else float_add (xp r) (w r));
          t = (if h r < 0 then float_add (yp r) (h r) else yp r);
          b = (if h r < 0 then yp r else float_add (yp r) (h r))
      in if l = rr then False
         else if fst p < l \<or> fst p > rr then False
         else if t = b then False
         else if snd p < t \<or> snd p > b then False
         else True)"

section \<open>The state of the annotation tool\<close>

datatype message =
  NeedThreePoints | NoImagesFound | CannotLoad string | NothingToSave | SavedTo string | SaveFailed

datatype callback = NextImage

datatype cell = Str string | Num int

datatype effect =
    Warning message
  | Information message
  | Critical message
  | SingleShot int callback
  | ImRead string
  | FileWrite string "cell list list"

datatype status = Ready | Annotating string | CentroidSaved int int

text \<open>
  The fields of \<open>AnnotationTool\<close> and of its \<open>ZoomableLabel\<close> that the
  operations read or write. \<open>original_image\<close> keeps the shape (height, width) of the
  decoded array. \<open>annotations\<close> is the dictionary in insertion order, each key with
  its \<open>centroids\<close> list. \<open>label_width\<close> and \<open>label_height\<close> are the widget's
  size, set by the window layout. \<open>pixmap_ok\<close> says that the label holds a non-null
  pixmap, \<open>drawn_polygon\<close> and \<open>drawn_centroid\<close> are the overlay painted last.
  \<open>effects\<close> logs message boxes, timers, image reads and file writes in order.
\<close>

record tool =
  image_dir :: string
  image_paths :: "string list"
  current_index :: int
  original_image :: "(int \<times> int) option"
  original_width :: int
  original_height :: int
  scale_factor :: rat
  annotations :: "(string \<times> point list) list"
  current_polygon :: "point list"
  current_centroid :: "point option"
  auto_advance :: bool
  marked_count :: int
  zoom :: int
  image_rect :: qrectf
  pixmap_ok :: bool
  label_width :: int
  label_height :: int
  drawn_polygon :: "point list"
  drawn_centroid :: "point option"
  zoom_slider :: int
  zoom_label :: int
  marked_label :: "nat \<times> nat"
  status_message :: status
  effects :: "effect list"

text \<open>The state after \<open>AnnotationTool.__init__\<close>, for a label of the given size.\<close>

definition init_tool :: "int \<Rightarrow> int \<Rightarrow> tool" where
  "init_tool lw lh =
     \<lparr> image_dir = [], image_paths = [], current_index = 0, original_image = None,
       original_width = 0, original_height = 0, scale_factor = 1,
       annotations = [], current_polygon = [], current_centroid = None,
       auto_advance = True, marked_count = 0, zoom = 100,
       image_rect = \<lparr> xp = 0, yp = 0, w = 0, h = 0 \<rparr>, pixmap_ok = False,
       label_width = lw, label_height = lh,
       drawn_polygon = [], drawn_centroid = None,
       zoom_slider = 100, zoom_label = 100, marked_label = (0, 0),
       status_message = Ready, effects = [] \<rparr>"

section \<open>Display\<close>

text \<open>
  \<open>update_display\<close>, lines 349-353 and 366-367: an original point is drawn at
  \<open>int(x * scale_factor * zoom_factor)\<close>, no offset added. The integer is converted
  to a float, and each of the two products is rounded.
\<close>

definition original_to_display :: "rat \<Rightarrow> rat \<Rightarrow> point \<Rightarrow> point" where
  "original_to_display sf zf p =
     (py_int (float_mul (float_mul (py_float (fst p)) sf) zf),
      py_int (float_mul (float_mul (py_float (snd p)) sf) zf))"

text \<open>
  A method that mutates the tool returns the state it leaves behind together with the
  exception it raised, if any: the assignments made before a \<open>raise\<close> stay.
  \<open>then_do\<close> runs the next statement unless an exception is already pending.

  \<open>update_display\<close> returns at once without an image. \<open>cv2.cvtColor\<close> raises on
  an empty array. Otherwise the method computes the fit scale, the scaled size and the
  centred rectangle, hands the overlay points to the painter and sets the pixmap.
  \<open>QPixmap.scaled\<close> gives a null pixmap exactly when the requested width or height
  is not positive.
\<close>

type_synonym outcome = "py_error option \<times> tool"

definition then_do :: "outcome \<Rightarrow> (tool \<Rightarrow> outcome) \<Rightarrow> outcome" where
  "then_do r f = (case fst r of None \<Rightarrow> f (snd r) | Some e \<Rightarrow> r)"

definition update_display :: "tool \<Rightarrow> outcome" where
  "update_display s =
     (case original_image s of
        None \<Rightarrow> (None, s)
      | Some (height, width) \<Rightarrow>
          if height = 0 \<or> width = 0 then (Some CvError, s)
          else
          (case int_truediv (label_width s) width of
             Inl e \<Rightarrow> (Some e, s)
           | Inr sx \<Rightarrow>
          (case int_truediv (label_height s) height of
             Inl e \<Rightarrow> (Some e, s)
           | Inr sy \<Rightarrow>
            let sf = min sx sy;
                zoom_factor = fl64 (of_int (zoom s) / 100);
                scaled_width = py_int (float_mul (float_mul (py_float width) sf) zoom_factor);
                scaled_height = py_int (float_mul (float_mul (py_float height) sf) zoom_factor);
                offset_x = fl64 (of_int (label_width s - scaled_width) / 2);
                offset_y = fl64 (of_int (label_height s - scaled_height) / 2)
            in (None, s\<lparr> scale_factor := sf,
                      image_rect := \<lparr> xp = offset_x, yp = offset_y,
                                      w = py_float scaled_width, h = py_float scaled_height \<rparr>,
                      drawn_polygon := map (original_to_display sf zoom_factor) (current_polygon s),
                      drawn_centroid := map_option (original_to_display sf zoom_factor) (current_centroid s),
                      pixmap_ok := (0 < scaled_width \<and> 0 < scaled_height) \<rparr>))))"

section \<open>Zoom\<close>

definition set_zoom :: "int \<Rightarrow> tool \<Rightarrow> outcome" where
  "set_zoom v s = update_display (s\<lparr> zoom := max 10 (min 500 v) \<rparr>)"

definition on_zoom_changed :: "int \<Rightarrow> tool \<Rightarrow> outcome" where
  "on_zoom_changed v s = then_do (set_zoom v s) (\<lambda>s1. (None, s1\<lparr> zoom_label := v \<rparr>))"

text \<open>
  \<open>QSlider.setValue\<close> on the slider of range 10..500 whose \<open>valueChanged\<close> signal is
  connected to \<open>on_zoom_changed\<close>: the value is bounded to the range, and the signal
  is emitted only when the stored value changes.
\<close>

definition slider_setValue :: "int \<Rightarrow> tool \<Rightarrow> outcome" where
  "slider_setValue v s =
     (let v' = max 10 (min 500 v)
      in if v' = zoom_slider s then (None, s)
         else on_zoom_changed v' (s\<lparr> zoom_slider := v' \<rparr>))"

definition adjust_zoom :: "bool \<Rightarrow> tool \<Rightarrow> outcome" where
  "adjust_zoom zoom_in s =
     (let step = (if zoom_in then 20 else -20);
          new_zoom = min 500 (max 10 (zoom s + step))
      in then_do (slider_setValue new_zoom s) (\<lambda>s1.
         then_do (set_zoom new_zoom s1) (\<lambda>s2.
           (None, s2\<lparr> zoom_label := new_zoom \<rparr>))))"

definition zoom_to_fit :: "tool \<Rightarrow> outcome" where
  "zoom_to_fit s =
     then_do (slider_setValue 100 s) (\<lambda>s1.
     then_do (set_zoom 100 s1) (\<lambda>s2.
       (None, s2\<lparr> zoom_label := 100 \<rparr>)))"

section \<open>Centroid\<close>

text \<open>
  \<open>np.array(points, dtype=np.float32)\<close> converts each Python integer to a double and
  the double to a \<open>float32\<close>: two roundings.

  \<open>cv2.moments\<close> is OpenCV library code, outside the repository. For an N x 2
  array of points it runs the contour algorithm (Green's formula over the closed
  path, the last point joined to the first): one pass in doubles accumulating
  \<open>a00\<close>, \<open>a10\<close>, \<open>a01\<close> from each edge, every product, sum and difference
  rounded on its own (a build that fuses a product and a sum into one rounding is not
  covered), then, when \<open>|a00| > FLT_EPSILON\<close>, the moments with the sign
  chosen so that \<open>m00\<close> is positive; all moments stay zero otherwise. Only the three
  moments the tool reads are kept. \<open>db1_6\<close> is the double of the literal
  \<open>0.16666666666666666666666666666667\<close>.
\<close>

record moments =
  m00 :: rat
  m10 :: rat
  m01 :: rat

definition FLT_EPSILON :: rat where
  "FLT_EPSILON = 1 / 2 ^ 23"

definition db1_6 :: rat where
  "db1_6 = fl64 (16666666666666666666666666666667 / 10 ^ 32)"

fun contour_sums :: "rat \<times> rat \<Rightarrow> (rat \<times> rat) list \<Rightarrow> rat \<times> rat \<times> rat \<Rightarrow> rat \<times> rat \<times> rat" where
  "contour_sums prev [] acc = acc"
| "contour_sums (xi_1, yi_1) ((xi, yi) # ps) (a00, a10, a01) =
     (let dxy = float_sub (float_mul xi_1 yi) (float_mul xi yi_1);
          xii_1 = float_add xi_1 xi;
          yii_1 = float_add yi_1 yi
      in contour_sums (xi, yi) ps
           (float_add a00 dxy, float_add a10 (float_mul dxy xii_1), float_add a01 (float_mul dxy yii_1)))"

definition to_float32 :: "point \<Rightarrow> rat \<times> rat" where
  "to_float32 p = (fl32 (fl64 (of_int (fst p))), fl32 (fl64 (of_int (snd p))))"

definition cv2_moments :: "(rat \<times> rat) list \<Rightarrow> moments" where
  "cv2_moments polygon =
     (if polygon = [] then \<lparr> m00 = 0, m10 = 0, m01 = 0 \<rparr>
      else case contour_sums (last polygon) polygon (0, 0, 0) of (a00, a10, a01) \<Rightarrow>
        if \<bar>a00\<bar> > FLT_EPSILON
        then let db1_2 = (if a00 > 0 then 1 / 2 else - (1 / 2));
                 d6 = (if a00 > 0 then db1_6 else - db1_6)
             in \<lparr> m00 = float_mul a00 db1_2, m10 = float_mul a10 d6, m01 = float_mul a01 d6 \<rparr>
        else \<lparr> m00 = 0, m10 = 0, m01 = 0 \<rparr>)"

definition calculate_centroid :: "point list \<Rightarrow> py_error + point" where
  "calculate_centroid points =
     (let polygon = map to_float32 points;
          mom = cv2_moments polygon
      in if m00 mom = 0 then Inr (0, 0)
         else case float_truediv (m10 mom) (m00 mom) of
                Inl e \<Rightarrow> Inl e
              | Inr qx \<Rightarrow>
                  (case float_truediv (m01 mom) (m00 mom) of
                     Inl e \<Rightarrow> Inl e
                   | Inr qy \<Rightarrow> Inr (py_int qx, py_int qy)))"

section \<open>Polygon capture and the annotation store\<close>

definition update_marked_count :: "tool \<Rightarrow> tool" where
  "update_marked_count s =
     (let total = length (image_paths s);
          marked = length (filter (\<lambda>(f, centroids). 0 < length centroids) (annotations s))
      in s\<lparr> marked_label := (marked, total) \<rparr>)"

definition add_polygon_point :: "int \<Rightarrow> int \<Rightarrow> tool \<Rightarrow> outcome" where
  "add_polygon_point x y s = update_display (s\<lparr> current_polygon := current_polygon s @ [(x, y)] \<rparr>)"

text \<open>
  \<open>finish_polygon\<close>, lines 409-412: the entry of the file name is created empty when
  the dictionary has none, then the centroid is appended to the entry's list.
\<close>

definition record_centroid :: "string \<Rightarrow> point \<Rightarrow> (string \<times> point list) list \<Rightarrow> (string \<times> point list) list" where
  "record_centroid filename c anns =
     (let anns1 = (if filename \<notin> set (map fst anns) then anns @ [(filename, [])] else anns)
      in map (\<lambda>(k, centroids). if k = filename then (k, centroids @ [c]) else (k, centroids)) anns1)"

definition finish_polygon :: "tool \<Rightarrow> outcome" where
  "finish_polygon s =
     (if length (current_polygon s) < 3
      then (None, s\<lparr> effects := effects s @ [Warning NeedThreePoints] \<rparr>)
      else case py_getitem (image_paths s) (current_index s) of
             Inl e \<Rightarrow> (Some e, s)
           | Inr path \<Rightarrow>
               (case calculate_centroid (current_polygon s) of
                  Inl e \<Rightarrow> (Some e, s)
                | Inr c \<Rightarrow>
                    let filename = basename path;
                        s1 = s\<lparr> current_centroid := Some c \<rparr>;
                        s2 = s1\<lparr> annotations := record_centroid filename c (annotations s1) \<rparr>;
                        s3 = s2\<lparr> marked_count := marked_count s2 + 1 \<rparr>;
                        s4 = update_marked_count s3;
                        s5 = s4\<lparr> status_message := CentroidSaved (fst c) (snd c) \<rparr>;
                        s6 = s5\<lparr> current_polygon := [] \<rparr>
                    in then_do (update_display s6) (\<lambda>s7.
                         if auto_advance s7
                         then (None, s7\<lparr> effects := effects s7 @ [SingleShot 1000 NextImage] \<rparr>)
                         else (None, s7))))"

definition clear_current :: "tool \<Rightarrow> outcome" where
  "clear_current s = update_display (s\<lparr> current_polygon := [], current_centroid := None \<rparr>)"

section \<open>Clicks\<close>

text \<open>
  \<open>handle_click\<close>, lines 42-49: the conversion of a label position to original
  pixel coordinates, \<open>None\<close> when the rectangle test rejects the position. The
  position is a pair of doubles; the difference, the quotient and the product are
  each rounded.
\<close>

definition display_to_original :: "qrectf \<Rightarrow> int \<Rightarrow> int \<Rightarrow> rat \<times> rat \<Rightarrow> py_error + point option" where
  "display_to_original r ow oh pos =
     (if \<not> qrectf_contains r pos then Inr None
      else case float_truediv (float_sub (fst pos) (xp r)) (w r) of
             Inl e \<Rightarrow> Inl e
           | Inr x_in_img \<Rightarrow>
               (case float_truediv (float_sub (snd pos) (yp r)) (h r) of
                  Inl e \<Rightarrow> Inl e
                | Inr y_in_img \<Rightarrow>
                    Inr (Some (py_int (float_mul x_in_img (py_float ow)),
                               py_int (float_mul y_in_img (py_float oh))))))"

definition handle_click :: "int \<times> int \<Rightarrow> tool \<Rightarrow> outcome" where
  "handle_click pos s =
     (if \<not> pixmap_ok s then (None, s)
      else case display_to_original (image_rect s) (original_width s) (original_height s)
                  (py_float (fst pos), py_float (snd pos)) of
             Inl e \<Rightarrow> (Some e, s)
           | Inr None \<Rightarrow> (None, s)
           | Inr (Some (original_x, original_y)) \<Rightarrow> add_polygon_point original_x original_y s)"

datatype button = LeftButton | RightButton | OtherButton

definition mousePressEvent :: "button \<Rightarrow> int \<times> int \<Rightarrow> tool \<Rightarrow> outcome" where
  "mousePressEvent b pos s =
     (if b = LeftButton \<and> pixmap_ok s then handle_click pos s
      else if b = RightButton then finish_polygon s
      else (None, s))"

section \<open>Navigation\<close>

text \<open>
  \<open>cv2.imread\<close> is the parameter \<open>imread\<close>: the shape (height, width) of the decoded
  array, or \<open>None\<close> when the file cannot be decoded.
\<close>

definition load_current_image :: "(string \<Rightarrow> (int \<times> int) option) \<Rightarrow> tool \<Rightarrow> outcome" where
  "load_current_image imread s =
     (if 0 \<le> current_index s \<and> current_index s < int (length (image_paths s))
      then let image_path = image_paths s ! nat (current_index s);
               s1 = s\<lparr> effects := effects s @ [ImRead image_path] \<rparr>
           in case imread image_path of
                None \<Rightarrow> (None, s1\<lparr> effects := effects s1 @ [Warning (CannotLoad image_path)] \<rparr>)
              | Some (height, width) \<Rightarrow>
                  let s2 = s1\<lparr> original_image := Some (height, width),
                              original_height := height, original_width := width,
                              current_polygon := [], current_centroid := None \<rparr>
                  in then_do (update_display s2) (\<lambda>s3.
                       (None, update_marked_count (s3\<lparr> status_message := Annotating (basename image_path) \<rparr>)))
      else (None, s))"

definition prev_image :: "(string \<Rightarrow> (int \<times> int) option) \<Rightarrow> tool \<Rightarrow> outcome" where
  "prev_image imread s =
     (if image_paths s \<noteq> []
      then load_current_image imread (s\<lparr> current_index := max 0 (current_index s - 1) \<rparr>)
      else (None, s))"

definition next_image :: "(string \<Rightarrow> (int \<times> int) option) \<Rightarrow> tool \<Rightarrow> outcome" where
  "next_image imread s =
     (if image_paths s \<noteq> []
      then load_current_image imread
             (s\<lparr> current_index := min (int (length (image_paths s)) - 1) (current_index s + 1) \<rparr>)
      else (None, s))"

text \<open>
  \<open>open_image_folder\<close>. \<open>dir_path\<close> is what the folder dialog returned (empty when
  cancelled), \<open>listing\<close> what \<open>os.listdir\<close> returns for it. The image list is
  assigned before it is tested for emptiness.
\<close>

definition image_suffixes :: "string list" where
  "image_suffixes = [''.png'', ''.jpg'', ''.jpeg'', ''.bmp'', ''.tif'', ''.tiff'']"

definition open_image_folder :: "string \<Rightarrow> string list \<Rightarrow> (string \<Rightarrow> (int \<times> int) option) \<Rightarrow> tool \<Rightarrow> outcome" where
  "open_image_folder dir_path listing imread s =
     (if dir_path \<noteq> []
      then let s1 = s\<lparr> image_dir := dir_path,
                       image_paths := map (path_join dir_path)
                         (filter (\<lambda>f. list_ex (endswith (lower f)) image_suffixes) listing) \<rparr>
           in if image_paths s1 = []
              then (None, s1\<lparr> effects := effects s1 @ [Warning NoImagesFound] \<rparr>)
              else let s2 = s1\<lparr> current_index := 0, annotations := [], marked_count := 0 \<rparr>
                   in then_do (load_current_image imread s2) (\<lambda>s3. (None, update_marked_count s3))
      else (None, s))"

section \<open>Export\<close>

text \<open>
  \<open>save_centroids\<close>, lines 462-465. \<open>csv.writer\<close> is library code: the model keeps
  the rows handed to \<open>writerow\<close>, each a list of cells, in the order written.
\<close>

fun write_centroids :: "string \<Rightarrow> point list \<Rightarrow> cell list list \<Rightarrow> cell list list" where
  "write_centroids filename [] f = f"
| "write_centroids filename ((cx, cy) # rest) f =
     write_centroids filename rest (f @ [[Str filename, Num cx, Num cy]])"

fun write_annotations :: "(string \<times> point list) list \<Rightarrow> cell list list \<Rightarrow> cell list list" where
  "write_annotations [] f = f"
| "write_annotations ((filename, centroids) # rest) f =
     write_annotations rest (write_centroids filename centroids f)"

definition header_row :: "cell list" where
  "header_row = [Str ''filename'', Str ''centroid_x'', Str ''centroid_y'']"

text \<open>
  \<open>save_path\<close> is what the file dialog returned (empty when cancelled), \<open>writable\<close>
  whether opening and writing the file goes through; a failure is caught by the
  \<open>except\<close> clause and reported.
\<close>

definition save_centroids :: "string \<Rightarrow> bool \<Rightarrow> tool \<Rightarrow> tool" where
  "save_centroids save_path writable s =
     (if annotations s = [] then s\<lparr> effects := effects s @ [Warning NothingToSave] \<rparr>
      else if save_path = [] then s
      else if writable
      then s\<lparr> effects := effects s @
                 [FileWrite save_path (write_annotations (annotations s) [header_row]),
                  Information (SavedTo save_path)] \<rparr>
      else s\<lparr> effects := effects s @ [Critical SaveFailed] \<rparr>)"

section \<open>Well-formed states and the export as the specification words it\<close>

text \<open>
  The array \<open>cv2.imread\<close> returns is never empty: a state whose image has a zero
  dimension does not arise. \<open>image_ok\<close> names the states where the divisions of
  \<open>update_display\<close> are defined.
\<close>

definition image_ok :: "tool \<Rightarrow> bool" where
  "image_ok s = (case original_image s of None \<Rightarrow> True | Some (height, width) \<Rightarrow> height \<noteq> 0 \<and> width \<noteq> 0)"

text \<open>
  The export as the specification describes it: one row per centroid, the entries in
  creation order and the centroids of an entry in insertion order.
\<close>

definition spec_export_rows :: "(string \<times> point list) list \<Rightarrow> cell list list" where
  "spec_export_rows store =
     concat (map (\<lambda>(key, centroids). map (\<lambda>(cx, cy). [Str key, Num cx, Num cy]) centroids) store)"

text \<open>
  The centroid as the specification describes it: the standard polygon formulas over
  the closed path, the last vertex joined to the first. \<open>spec_area2\<close> is twice the
  signed area, \<open>spec_moment_x\<close> and \<open>spec_moment_y\<close> are six times the first-order
  area moments, so the centroid is \<open>spec_moment_x / (3 * spec_area2)\<close> and
  \<open>spec_moment_y / (3 * spec_area2)\<close>.
\<close>

definition closed_path_edges :: "point list \<Rightarrow> (point \<times> point) list" where
  "closed_path_edges pts = zip pts (rotate1 pts)"

definition edge_cross :: "point \<times> point \<Rightarrow> int" where
  "edge_cross e = fst (fst e) * snd (snd e) - fst (snd e) * snd (fst e)"

definition spec_area2 :: "point list \<Rightarrow> int" where
  "spec_area2 pts = sum_list (map edge_cross (closed_path_edges pts))"

definition spec_moment_x :: "point list \<Rightarrow> int" where
  "spec_moment_x pts =
     sum_list (map (\<lambda>e. (fst (fst e) + fst (snd e)) * edge_cross e) (closed_path_edges pts))"

definition spec_moment_y :: "point list \<Rightarrow> int" where
  "spec_moment_y pts =
     sum_list (map (\<lambda>e. (snd (fst e) + snd (snd e)) * edge_cross e) (closed_path_edges pts))"

section \<open>Facts about rounding\<close>

lemma pos_int_bitlen_bounds:
  assumes "0 < a"
  shows "(2::rat) powi (bitlen a - 1) \<le> of_int a" and "of_int a < (2::rat) powi (bitlen a)"
proof -
  from assms have b1: "1 \<le> bitlen a" by (auto simp: bitlen_alt_def)
  from bitlen_bounds [OF assms] have lo: "2 ^ nat (bitlen a - 1) \<le> a" and hi: "a < 2 ^ nat (bitlen a)"
    by auto
  have "(2::rat) powi (bitlen a - 1) = 2 ^ nat (bitlen a - 1)"
    using b1 by (simp add: power_int_def)
  also have "\<dots> = of_int (2 ^ nat (bitlen a - 1))" by simp
  also have "\<dots> \<le> of_int a" using lo by (simp only: of_int_le_iff)
  finally show "(2::rat) powi (bitlen a - 1) \<le> of_int a" .
  have "(of_int a :: rat) < of_int (2 ^ nat (bitlen a))" using hi by (simp only: of_int_less_iff)
  also have "\<dots> = 2 powi (bitlen a)" using b1 by (simp add: power_int_def)
  finally show "of_int a < (2::rat) powi (bitlen a)" .
qed

lemma binexp_bounds:
  assumes "x \<noteq> 0"
  shows "2 powi (binexp x) \<le> \<bar>x\<bar>" and "\<bar>x\<bar> < 2 powi (binexp x + 1)"
proof -
  obtain a b where ab: "quotient_of \<bar>x\<bar> = (a, b)" by (cases "quotient_of \<bar>x\<bar>")
  then have b: "0 < b" and x: "\<bar>x\<bar> = of_int a / of_int b"
    using quotient_of_denom_pos quotient_of_div by blast+
  have a: "0 < a"
  proof -
    have "0 < \<bar>x\<bar>" using assms by simp
    then have "0 < (of_int a :: rat) / of_int b" by (simp only: x)
    with b show ?thesis by (simp add: zero_less_divide_iff)
  qed
  define k where "k = bitlen a - bitlen b"
  have bx: "binexp x = (if 2 powi k \<le> \<bar>x\<bar> then k else k - 1)"
    by (simp add: binexp_def ab k_def Let_def)
  note A = pos_int_bitlen_bounds [OF a]
  note B = pos_int_bitlen_bounds [OF b]
  have bpos: "(0::rat) < of_int b" using b by simp
  have lower: "(2::rat) powi (k - 1) \<le> \<bar>x\<bar>"
  proof -
    have "(2::rat) powi (k - 1) * of_int b \<le> 2 powi (k - 1) * 2 powi (bitlen b)"
      using B(2) by (intro mult_left_mono) simp_all
    also have "\<dots> = 2 powi (bitlen a - 1)"
      by (simp add: k_def power_int_add [symmetric])
    also have "\<dots> \<le> of_int a" by (rule A(1))
    finally show ?thesis using bpos by (simp add: x pos_le_divide_eq)
  qed
  have upper: "\<bar>x\<bar> < (2::rat) powi (k + 1)"
  proof -
    have "(of_int a :: rat) < 2 powi (bitlen a)" by (rule A(2))
    also have "\<dots> = 2 powi (k + 1) * 2 powi (bitlen b - 1)"
      by (simp add: k_def power_int_add [symmetric])
    also have "\<dots> \<le> 2 powi (k + 1) * of_int b"
      using B(1) by (intro mult_left_mono) simp_all
    finally show ?thesis using bpos by (simp add: x pos_divide_less_eq)
  qed
  show "2 powi (binexp x) \<le> \<bar>x\<bar>" using lower by (simp add: bx)
  show "\<bar>x\<bar> < 2 powi (binexp x + 1)"
    using upper by (auto simp: bx not_le)
qed

lemma binexp_unique:
  assumes "2 powi e \<le> \<bar>x\<bar>" and "\<bar>x\<bar> < 2 powi (e + 1)"
  shows "binexp x = e"
proof -
  have x0: "x \<noteq> 0"
  proof
    assume "x = 0"
    with assms(1) have "(2::rat) powi e \<le> 0" by simp
    moreover have "(0::rat) < 2 powi e" by simp
    ultimately show False by simp
  qed
  note b = binexp_bounds [OF x0]
  have "(2::rat) powi e < 2 powi (binexp x + 1)" using assms(1) b(2) by simp
  then have 1: "e < binexp x + 1"
    using power_int_increasing [of "binexp x + 1" e "2::rat"] by (cases "e < binexp x + 1") auto
  have "(2::rat) powi (binexp x) < 2 powi (e + 1)" using assms(2) b(1) by simp
  then have 2: "binexp x < e + 1"
    using power_int_increasing [of "e + 1" "binexp x" "2::rat"] by (cases "binexp x < e + 1") auto
  from 1 2 show ?thesis by simp
qed


lemma round_half_even_error: "\<bar>of_int (round_half_even y) - y\<bar> \<le> 1 / 2"
proof -
  have "of_int \<lfloor>y\<rfloor> \<le> y" "y < of_int \<lfloor>y\<rfloor> + 1" by linarith+
  then show ?thesis
    by (auto simp: round_half_even_def Let_def) 
qed

lemma round_half_even_near:
  assumes "\<bar>y - of_int m\<bar> < 1 / 2"
  shows "round_half_even y = m"
proof -
  have e: "\<bar>of_int (round_half_even y) - y\<bar> \<le> 1 / 2" by (rule round_half_even_error)
  have "\<bar>(of_int (round_half_even y) :: rat) - of_int m\<bar> < 1" using assms e by linarith
  then have "\<bar>(of_int (round_half_even y - m) :: rat)\<bar> < 1" by simp
  then have "\<bar>round_half_even y - m\<bar> < 1" by (metis of_int_abs of_int_less_1_iff)
  then show ?thesis by simp
qed

lemma round_half_even_of_int [simp]: "round_half_even (of_int m) = m"
  by (rule round_half_even_near) simp

lemma round_to_error:
  "\<bar>round_to p x - x\<bar> \<le> \<bar>x\<bar> / 2 ^ p"
proof (cases "x = 0")
  case True
  then show ?thesis by (simp add: round_to_def)
next
  case False
  define q :: rat where "q = 2 powi (binexp x - (int p - 1))"
  have q: "0 < q" by (simp add: q_def)
  have r: "round_to p x = of_int (round_half_even (x / q)) * q"
    using False by (simp add: round_to_def q_def Let_def)
  have "\<bar>of_int (round_half_even (x / q)) - x / q\<bar> \<le> 1 / 2" by (rule round_half_even_error)
  then have "\<bar>of_int (round_half_even (x / q)) - x / q\<bar> * q \<le> 1 / 2 * q"
    using q by (intro mult_right_mono) simp_all
  moreover have "\<bar>of_int (round_half_even (x / q)) - x / q\<bar> * q = \<bar>round_to p x - x\<bar>"
  proof -
    have "\<bar>of_int (round_half_even (x / q)) - x / q\<bar> * q = \<bar>(of_int (round_half_even (x / q)) - x / q) * q\<bar>"
      using q by (simp add: abs_mult)
    also have "(of_int (round_half_even (x / q)) - x / q) * q = round_to p x - x"
      using q by (simp add: r algebra_simps)
    finally show ?thesis .
  qed
  ultimately have 1: "\<bar>round_to p x - x\<bar> \<le> q / 2" by simp
  have "q / 2 = 2 powi (binexp x) / 2 ^ p"
    by (simp add: q_def power_int_diff power_int_add field_simps)
  also have "\<dots> \<le> \<bar>x\<bar> / 2 ^ p"
    using binexp_bounds(1) [OF False] by (intro divide_right_mono) simp_all
  finally show ?thesis using 1 by linarith
qed

lemma round_to_exact:
  assumes "x = of_int m * 2 powi k" and "\<bar>m\<bar> < 2 ^ p"
  shows "round_to p x = x"
proof (cases "x = 0")
  case True
  then show ?thesis by (simp add: round_to_def)
next
  case False
  define e where "e = binexp x"
  define q :: rat where "q = 2 powi (e - (int p - 1))"
  have q: "0 < q" by (simp add: q_def)
  have r: "round_to p x = of_int (round_half_even (x / q)) * q"
    using False by (simp add: round_to_def q_def e_def Let_def)
  have "\<bar>x\<bar> = of_int \<bar>m\<bar> * 2 powi k" by (simp add: assms(1) abs_mult)
  also have "\<dots> < 2 ^ p * 2 powi k"
  proof -
    have "(of_int \<bar>m\<bar> :: rat) < of_int (2 ^ p)" using assms(2) by (simp only: of_int_less_iff)
    then show ?thesis by (intro mult_strict_right_mono) simp_all
  qed
  also have "\<dots> = 2 powi (int p + k)" by (simp add: power_int_add)
  finally have "(2::rat) powi e < 2 powi (int p + k)"
    using binexp_bounds(1) [OF False] by (simp add: e_def)
  then have elt: "e < int p + k"
    using power_int_increasing [of "int p + k" e "2::rat"] by (cases "e < int p + k") auto
  define j where "j = nat (k - (e - (int p - 1)))"
  have j: "int j = k - (e - (int p - 1))" using elt by (simp add: j_def)
  have "x / q = of_int m * (2 powi k / 2 powi (e - (int p - 1)))" by (simp add: assms(1) q_def)
  also have "2 powi k / (2::rat) powi (e - (int p - 1)) = 2 powi (int j)"
    unfolding j by (rule power_int_diff [symmetric]) simp
  also have "of_int m * (2::rat) powi (int j) = of_int (m * 2 ^ j)" by simp
  finally have xq: "x / q = of_int (m * 2 ^ j)" .
  have "round_half_even (x / q) = m * 2 ^ j"
    unfolding xq by (rule round_half_even_of_int)
  then have "round_to p x = of_int (m * 2 ^ j) * q" by (simp only: r)
  also have "\<dots> = x / q * q" by (simp only: xq)
  also have "\<dots> = x" using q by simp
  finally show ?thesis .
qed

lemma round_to_of_int:
  "\<bar>n\<bar> < 2 ^ p \<Longrightarrow> round_to p (of_int n) = of_int n"
  by (rule round_to_exact [where m = n and k = 0]) simp_all

lemma round_to_nonneg: "0 \<le> x \<Longrightarrow> 0 \<le> round_to p x"
proof -
  assume x: "0 \<le> x"
  have "\<bar>round_to p x - x\<bar> \<le> \<bar>x\<bar> / 2 ^ p" by (rule round_to_error)
  moreover have "\<bar>x\<bar> / 2 ^ p \<le> \<bar>x\<bar>" by (simp add: divide_le_eq mult_le_cancel_left1)
  ultimately show ?thesis using x by linarith
qed

lemma round_to_nonpos: "x \<le> 0 \<Longrightarrow> round_to p x \<le> 0"
proof -
  assume x: "x \<le> 0"
  have "\<bar>round_to p x - x\<bar> \<le> \<bar>x\<bar> / 2 ^ p" by (rule round_to_error)
  moreover have "\<bar>x\<bar> / 2 ^ p \<le> \<bar>x\<bar>" by (simp add: divide_le_eq mult_le_cancel_left1)
  ultimately show ?thesis using x by linarith
qed

lemma round_to_exact_le:
  assumes "x = of_int m * 2 powi k" and "\<bar>m\<bar> \<le> 2 ^ p" and "0 < p"
  shows "round_to p x = x"
proof (cases "\<bar>m\<bar> < 2 ^ p")
  case True
  with assms(1) show ?thesis by (rule round_to_exact)
next
  case False
  with assms(2) have m: "\<bar>m\<bar> = 2 ^ p" by simp
  define sg :: int where "sg = (if m < 0 then - 1 else 1)"
  have "m = sg * 2 ^ p" using m unfolding sg_def by (cases "m < 0") (simp_all add: abs_if)
  then have "x = of_int sg * 2 powi (int p + k)"
    by (simp add: assms(1) power_int_add)
  moreover have "\<bar>sg\<bar> < 2 ^ p" using assms(3) by (simp add: sg_def)
  ultimately show ?thesis by (rule round_to_exact)
qed

lemma fl64_error: "\<bar>fl64 x - x\<bar> \<le> \<bar>x\<bar> / 2 ^ 53"
  unfolding fl64_def by (rule round_to_error)

lemma fl64_nonneg: "0 \<le> x \<Longrightarrow> 0 \<le> fl64 x"
  unfolding fl64_def by (rule round_to_nonneg)

lemma fl64_nonpos: "x \<le> 0 \<Longrightarrow> fl64 x \<le> 0"
  unfolding fl64_def by (rule round_to_nonpos)

lemma fl64_pos: "0 < x \<Longrightarrow> 0 < fl64 x"
proof -
  assume x: "0 < x"
  have "x / 2 ^ 53 < x" using x by (simp add: divide_less_eq)
  with fl64_error [of x] x show ?thesis by linarith
qed

lemma fl64_dyadic:
  "\<bar>m\<bar> \<le> 2 ^ 53 \<Longrightarrow> fl64 (of_int m * 2 powi k) = of_int m * 2 powi k"
  unfolding fl64_def by (rule round_to_exact_le [where m = m and k = k]) simp_all

lemma fl64_of_int: "\<bar>n\<bar> \<le> 2 ^ 53 \<Longrightarrow> fl64 (of_int n) = of_int n"
  using fl64_dyadic [of n 0] by simp

lemma fl64_half_of_int: "\<bar>n\<bar> \<le> 2 ^ 53 \<Longrightarrow> fl64 (of_int n / 2) = of_int n / 2"
  using fl64_dyadic [of n "- 1"] by simp

lemma fl64_frac: "\<bar>m\<bar> \<le> 2 ^ 53 \<Longrightarrow> fl64 (of_int m / 2 ^ k) = of_int m / 2 ^ k"
  using fl64_dyadic [of m "- int k"] by (simp add: power_int_minus field_simps)

lemma fl32_of_int: "\<bar>n\<bar> \<le> 2 ^ 24 \<Longrightarrow> fl32 (of_int n) = of_int n"
  unfolding fl32_def by (rule round_to_exact_le [where m = n and k = 0]) simp_all

lemma fl64_0 [simp]: "fl64 0 = 0"
  by (simp add: fl64_def round_to_def)

lemma fl64_1 [simp]: "fl64 1 = 1"
  using fl64_of_int [of 1] by simp

lemma fl64_numeral [simp]:
  "(numeral n :: int) \<le> 2 ^ 53 \<Longrightarrow> fl64 (numeral n) = numeral n"
  using fl64_of_int [of "numeral n"] by simp

lemma fl64_neg_numeral [simp]:
  "(numeral n :: int) \<le> 2 ^ 53 \<Longrightarrow> fl64 (- numeral n) = - numeral n"
  using fl64_of_int [of "- numeral n"] by simp

lemma fl32_0 [simp]: "fl32 0 = 0"
  by (simp add: fl32_def round_to_def)

lemma fl32_numeral [simp]:
  "(numeral n :: int) \<le> 2 ^ 24 \<Longrightarrow> fl32 (numeral n) = numeral n"
  using fl32_of_int [of "numeral n"] by simp

lemma fl32_1 [simp]: "fl32 1 = 1"
  using fl32_of_int [of 1] by simp

lemma py_float_of_int: "\<bar>n\<bar> \<le> 2 ^ 53 \<Longrightarrow> py_float n = of_int n"
  by (simp add: py_float_def fl64_of_int)

lemma round_to_near:
  assumes lo: "2 powi e \<le> \<bar>x\<bar>" and hi: "\<bar>x\<bar> < 2 powi (e + 1)"
    and near: "\<bar>x - of_int m * 2 powi (e - (int p - 1))\<bar> < 2 powi (e - (int p - 1)) / 2"
  shows "round_to p x = of_int m * 2 powi (e - (int p - 1))"
proof -
  define q :: rat where "q = 2 powi (e - (int p - 1))"
  have q: "0 < q" by (simp add: q_def)
  have be: "binexp x = e" using lo hi by (rule binexp_unique)
  have x0: "x \<noteq> 0"
  proof
    assume "x = 0"
    with lo have "(2::rat) powi e \<le> 0" by simp
    moreover have "(0::rat) < 2 powi e" by simp
    ultimately show False by linarith
  qed
  have r: "round_to p x = of_int (round_half_even (x / q)) * q"
    using x0 by (simp add: round_to_def q_def be Let_def)
  have "\<bar>x / q - of_int m\<bar> = \<bar>(x - of_int m * q) / q\<bar>"
    using q by (simp add: field_simps)
  also have "\<dots> = \<bar>x - of_int m * q\<bar> / q" using q by (simp add: abs_divide)
  also have "\<dots> < (q / 2) / q"
    using near q unfolding q_def [symmetric] by (intro divide_strict_right_mono) simp_all
  also have "\<dots> = 1 / 2" using q by simp
  finally have "round_half_even (x / q) = m" by (rule round_half_even_near)
  then show ?thesis by (simp add: r q_def)
qed

lemma db1_6_value: "db1_6 = 6004799503160661 / 2 ^ 55"
proof -
  have "round_to 53 (16666666666666666666666666666667 / 10 ^ 32)
        = of_int 6004799503160661 * 2 powi (- 3 - (int 53 - 1))"
    by (rule round_to_near) (simp_all add: power_int_minus)
  then show ?thesis by (simp add: db1_6_def fl64_def power_int_minus)
qed

lemma fl64_examples:
  "fl64 (1 / 2) = 1 / 2" "fl64 (1 / 4) = 1 / 4" "fl64 (1 / 8) = 1 / 8" "fl64 (15 / 8) = 15 / 8"
  "fl64 (1 / 128) = 1 / 128"
  using fl64_frac [of 1 1] fl64_frac [of 1 2] fl64_frac [of 1 3] fl64_frac [of 15 3] fl64_frac [of 1 7]
  by simp_all

section \<open>Facts about the display and the outcome of a method\<close>

lemma update_display_keeps:
  "zoom (snd (update_display s)) = zoom s"
  "current_polygon (snd (update_display s)) = current_polygon s"
  "current_centroid (snd (update_display s)) = current_centroid s"
  "annotations (snd (update_display s)) = annotations s"
  "current_index (snd (update_display s)) = current_index s"
  "image_paths (snd (update_display s)) = image_paths s"
  "effects (snd (update_display s)) = effects s"
  "auto_advance (snd (update_display s)) = auto_advance s"
  "original_image (snd (update_display s)) = original_image s"
  "marked_count (snd (update_display s)) = marked_count s"
  "marked_label (snd (update_display s)) = marked_label s"
  "zoom_slider (snd (update_display s)) = zoom_slider s"
  "label_width (snd (update_display s)) = label_width s"
  "label_height (snd (update_display s)) = label_height s"
  "original_width (snd (update_display s)) = original_width s"
  "original_height (snd (update_display s)) = original_height s"
  "status_message (snd (update_display s)) = status_message s"
  by (simp_all add: update_display_def Let_def split: option.split sum.split prod.split)

lemma update_display_ok: "image_ok s \<Longrightarrow> fst (update_display s) = None"
  by (auto simp: image_ok_def update_display_def int_truediv_def Let_def split: option.split prod.split)

lemma update_display_image_ok: "image_ok (snd (update_display s)) = image_ok s"
  by (simp add: image_ok_def update_display_keeps)

lemma finish_polygon_too_few:
  "length (current_polygon s) < 3 \<Longrightarrow>
     finish_polygon s = (None, s\<lparr> effects := effects s @ [Warning NeedThreePoints] \<rparr>)"
  by (simp add: finish_polygon_def)

lemma py_getitem_in_range:
  "0 \<le> i \<Longrightarrow> i < int (length xs) \<Longrightarrow> py_getitem xs i = Inr (xs ! nat i)"
  by (simp add: py_getitem_def)

lemma calculate_centroid_total: "\<exists>c. calculate_centroid pts = Inr c"
  by (simp add: calculate_centroid_def Let_def float_truediv_def)

text \<open>
  Claim C9. With an empty image list, \<open>prev_image\<close> and \<open>next_image\<close> return
  the state they were given and raise nothing: the index is unchanged, no image is
  read (the effect log is the same), no message is shown.
\<close>

theorem navigation_noop_on_empty_list:
  "image_paths s = [] \<Longrightarrow> prev_image imread s = (None, s) \<and> next_image imread s = (None, s)"
  by (simp add: prev_image_def next_image_def)

text \<open>The tool as constructed has an empty image list.\<close>

theorem navigation_noop_on_empty_list_witness:
  "image_paths (init_tool 800 600) = []
   \<and> prev_image (\<lambda>p. Some (10, 10)) (init_tool 800 600) = (None, init_tool 800 600)
   \<and> next_image (\<lambda>p. Some (10, 10)) (init_tool 800 600) = (None, init_tool 800 600)"
  using navigation_noop_on_empty_list [of "init_tool 800 600" "\<lambda>p. Some (10, 10)"]
  by (simp add: init_tool_def)

text \<open>
  Claim C10. \<open>finish_polygon\<close> with fewer than three pending vertices raises
  nothing and leaves the annotations, the centroid preview and the current index as
  they were; the only effect it adds is the warning, so no timer is scheduled. The
  whole state is the old one with the warning logged.
\<close>

theorem finish_too_few_changes_nothing_else:
  "length (current_polygon s) < 3 \<Longrightarrow>
     fst (finish_polygon s) = None
     \<and> annotations (snd (finish_polygon s)) = annotations s
     \<and> current_centroid (snd (finish_polygon s)) = current_centroid s
     \<and> current_index (snd (finish_polygon s)) = current_index s
     \<and> effects (snd (finish_polygon s)) = effects s @ [Warning NeedThreePoints]
     \<and> snd (finish_polygon s) = s\<lparr> effects := effects s @ [Warning NeedThreePoints] \<rparr>"
  by (simp add: finish_polygon_too_few)

lemma finish_polygon_enough:
  assumes n: "3 \<le> length (current_polygon s)"
    and i: "0 \<le> current_index s" "current_index s < int (length (image_paths s))"
    and c: "calculate_centroid (current_polygon s) = Inr c"
    and ok: "image_ok s"
  shows "fst (finish_polygon s) = None"
    and "current_polygon (snd (finish_polygon s)) = []"
    and "current_centroid (snd (finish_polygon s)) = Some c"
    and "annotations (snd (finish_polygon s)) =
           record_centroid (basename (image_paths s ! nat (current_index s))) c (annotations s)"
    and "effects (snd (finish_polygon s)) =
           effects s @ (if auto_advance s then [SingleShot 1000 NextImage] else [])"
    and "current_index (snd (finish_polygon s)) = current_index s"
    and "marked_label (snd (finish_polygon s)) =
           (length (filter (\<lambda>(f, centroids). 0 < length centroids)
              (record_centroid (basename (image_paths s ! nat (current_index s))) c (annotations s))),
            length (image_paths s))"
proof -
  define k where "k = basename (image_paths s ! nat (current_index s))"
  define s6 where "s6 = (update_marked_count
      (s\<lparr> current_centroid := Some c,
          annotations := record_centroid k c (annotations s),
          marked_count := marked_count s + 1 \<rparr>))
      \<lparr> status_message := CentroidSaved (fst c) (snd c), current_polygon := [] \<rparr>"
  define s7 where "s7 = snd (update_display s6)"
  have ok6: "image_ok s6"
    using ok by (simp add: s6_def image_ok_def update_marked_count_def)
  have ud: "update_display s6 = (None, s7)"
    using update_display_ok [OF ok6] by (simp add: s7_def prod_eq_iff)
  have fp: "finish_polygon s =
      (if auto_advance s7
       then (None, s7\<lparr> effects := effects s7 @ [SingleShot 1000 NextImage] \<rparr>)
       else (None, s7))"
    using n i c ud
    by (simp add: finish_polygon_def py_getitem_in_range Let_def s6_def k_def then_do_def)
  have s7_fields:
    "current_polygon s7 = []" "current_centroid s7 = Some c"
    "annotations s7 = record_centroid k c (annotations s)"
    "effects s7 = effects s" "auto_advance s7 = auto_advance s"
    "current_index s7 = current_index s"
    "marked_label s7 =
       (length (filter (\<lambda>(f, centroids). 0 < length centroids) (record_centroid k c (annotations s))),
        length (image_paths s))"
    by (simp_all add: s7_def update_display_keeps s6_def update_marked_count_def)
  show "fst (finish_polygon s) = None" by (simp add: fp)
  show "current_polygon (snd (finish_polygon s)) = []" by (simp add: fp s7_fields)
  show "current_centroid (snd (finish_polygon s)) = Some c" by (simp add: fp s7_fields)
  show "annotations (snd (finish_polygon s)) =
           record_centroid (basename (image_paths s ! nat (current_index s))) c (annotations s)"
    by (simp add: fp s7_fields k_def)
  show "effects (snd (finish_polygon s)) =
           effects s @ (if auto_advance s then [SingleShot 1000 NextImage] else [])"
    by (simp add: fp s7_fields)
  show "current_index (snd (finish_polygon s)) = current_index s" by (simp add: fp s7_fields)
  show "marked_label (snd (finish_polygon s)) =
           (length (filter (\<lambda>(f, centroids). 0 < length centroids)
              (record_centroid (basename (image_paths s ! nat (current_index s))) c (annotations s))),
            length (image_paths s))"
    by (simp add: fp s7_fields k_def)
qed

text \<open>
  The subscription at line 406 raises when the image list is empty, whatever the
  pending vertices are.
\<close>

lemma finish_polygon_no_current_image:
  assumes "3 \<le> length (current_polygon s)" and "image_paths s = []"
  shows "finish_polygon s = (Some IndexError, s)"
proof -
  have "py_getitem (image_paths s) (current_index s) = Inl IndexError"
    using assms(2) by (auto simp: py_getitem_def)
  with assms(1) show ?thesis by (simp add: finish_polygon_def)
qed

text \<open>
  Loading an image that decodes to a non-empty array leaves the current index inside
  the list and the shape without a zero dimension, with no vertex pending.
\<close>

lemma load_current_image_loaded:
  assumes "0 \<le> current_index s" and "current_index s < int (length (image_paths s))"
    and "imread (image_paths s ! nat (current_index s)) = Some (hh, ww)"
    and "hh \<noteq> 0" and "ww \<noteq> 0"
  shows "fst (load_current_image imread s) = None"
    and "image_ok (snd (load_current_image imread s))"
    and "current_polygon (snd (load_current_image imread s)) = []"
    and "current_index (snd (load_current_image imread s)) = current_index s"
    and "image_paths (snd (load_current_image imread s)) = image_paths s"
proof -
  let ?s2 = "s\<lparr> effects := effects s @ [ImRead (image_paths s ! nat (current_index s))],
      original_image := Some (hh, ww), original_height := hh, original_width := ww,
      current_polygon := [], current_centroid := None \<rparr>"
  have ok2: "image_ok ?s2" using assms(4,5) by (simp add: image_ok_def)
  have ud: "fst (update_display ?s2) = None"
    by (rule update_display_ok [OF ok2])
  have l: "load_current_image imread s =
      (None, update_marked_count ((snd (update_display ?s2))
         \<lparr> status_message := Annotating (basename (image_paths s ! nat (current_index s))) \<rparr>))"
    using assms(1,2,3) ud
    by (simp add: load_current_image_def Let_def then_do_def)
  show "fst (load_current_image imread s) = None" by (simp add: l)
  show "image_ok (snd (load_current_image imread s))"
    using ok2 by (simp add: l image_ok_def update_marked_count_def update_display_keeps)
  show "current_polygon (snd (load_current_image imread s)) = []"
    by (simp add: l update_marked_count_def update_display_keeps)
  show "current_index (snd (load_current_image imread s)) = current_index s"
    by (simp add: l update_marked_count_def update_display_keeps)
  show "image_paths (snd (load_current_image imread s)) = image_paths s"
    by (simp add: l update_marked_count_def update_display_keeps)
qed

lemma add_polygon_point_fields:
  "current_polygon (snd (add_polygon_point x y s)) = current_polygon s @ [(x, y)]"
  "image_paths (snd (add_polygon_point x y s)) = image_paths s"
  "current_index (snd (add_polygon_point x y s)) = current_index s"
  "annotations (snd (add_polygon_point x y s)) = annotations s"
  "effects (snd (add_polygon_point x y s)) = effects s"
  "auto_advance (snd (add_polygon_point x y s)) = auto_advance s"
  "image_ok (snd (add_polygon_point x y s)) = image_ok s"
  by (simp_all add: add_polygon_point_def update_display_keeps update_display_image_ok)
     (simp add: image_ok_def)

lemma add_polygon_point_ok: "image_ok s \<Longrightarrow> fst (add_polygon_point x y s) = None"
  by (simp add: add_polygon_point_def update_display_ok image_ok_def)


lemma record_centroid_has_entry: "\<exists>cs. (k, cs @ [c]) \<in> set (record_centroid k c anns)"
proof (cases "k \<in> set (map fst anns)")
  case True
  then obtain cs where "(k, cs) \<in> set anns" by auto
  then have "(k, cs @ [c]) \<in> set (record_centroid k c anns)"
    using True by (force simp: record_centroid_def)
  then show ?thesis by blast
next
  case False
  then have "(k, [] @ [c]) \<in> set (record_centroid k c anns)"
    by (simp add: record_centroid_def)
  then show ?thesis by blast
qed

text \<open>
  The retry on a displayed image. \<open>finish_polygon\<close> with fewer than three pending
  vertices leaves the pending sequence as it was and shows the warning. From a state
  with two pending vertices in which the current index addresses an entry of the image
  list and the shape of the image has no zero dimension, adding a third vertex and
  finishing again goes through: nothing is raised, the centroid of the three vertices
  becomes the preview and is appended to the entry of the current file name, and the
  pending sequence is empty.
\<close>

lemma finish_retry_on_displayed_image:
  "(length (current_polygon s) < 3 \<longrightarrow>
       fst (finish_polygon s) = None
     \<and> current_polygon (snd (finish_polygon s)) = current_polygon s
     \<and> effects (snd (finish_polygon s)) = effects s @ [Warning NeedThreePoints])
   \<and> (length (current_polygon s) = 2 \<and> 0 \<le> current_index s
        \<and> current_index s < int (length (image_paths s)) \<and> image_ok s \<longrightarrow>
       (let s1 = snd (finish_polygon s);
            r2 = add_polygon_point x y s1;
            r3 = finish_polygon (snd r2);
            filename = basename (image_paths s ! nat (current_index s))
        in fst r2 = None
         \<and> current_polygon (snd r2) = current_polygon s @ [(x, y)]
         \<and> fst r3 = None
         \<and> current_polygon (snd r3) = []
         \<and> (\<exists>c. calculate_centroid (current_polygon s @ [(x, y)]) = Inr c
                \<and> current_centroid (snd r3) = Some c
                \<and> annotations (snd r3) = record_centroid filename c (annotations s)
                \<and> (\<exists>cs. (filename, cs @ [c]) \<in> set (annotations (snd r3))))
         \<and> effects (snd r3) = effects s @ [Warning NeedThreePoints]
                @ (if auto_advance s then [SingleShot 1000 NextImage] else [])))"
proof (intro conjI impI)
  assume "length (current_polygon s) < 3"
  then have fp: "finish_polygon s = (None, s\<lparr> effects := effects s @ [Warning NeedThreePoints] \<rparr>)"
    by (rule finish_polygon_too_few)
  show "fst (finish_polygon s) = None" by (simp add: fp)
  show "current_polygon (snd (finish_polygon s)) = current_polygon s" by (simp add: fp)
  show "effects (snd (finish_polygon s)) = effects s @ [Warning NeedThreePoints]" by (simp add: fp)
next
  assume a: "length (current_polygon s) = 2 \<and> 0 \<le> current_index s
        \<and> current_index s < int (length (image_paths s)) \<and> image_ok s"
  define s1 where "s1 = s\<lparr> effects := effects s @ [Warning NeedThreePoints] \<rparr>"
  define s2 where "s2 = snd (add_polygon_point x y s1)"
  from a have fp: "finish_polygon s = (None, s1)"
    by (simp add: finish_polygon_too_few s1_def)
  have ok1: "image_ok s1" using a by (simp add: s1_def image_ok_def)
  have r2: "fst (add_polygon_point x y s1) = None"
    by (rule add_polygon_point_ok [OF ok1])
  have s2_fields:
    "current_polygon s2 = current_polygon s @ [(x, y)]"
    "image_paths s2 = image_paths s" "current_index s2 = current_index s"
    "annotations s2 = annotations s"
    "effects s2 = effects s @ [Warning NeedThreePoints]"
    "auto_advance s2 = auto_advance s" "image_ok s2"
    using ok1 by (simp_all add: s2_def add_polygon_point_fields) (simp_all add: s1_def)
  obtain c where c: "calculate_centroid (current_polygon s @ [(x, y)]) = Inr c"
    using calculate_centroid_total by blast
  have n2: "3 \<le> length (current_polygon s2)" using a by (simp add: s2_fields)
  have i2: "0 \<le> current_index s2" "current_index s2 < int (length (image_paths s2))"
    using a by (simp_all add: s2_fields)
  have c2: "calculate_centroid (current_polygon s2) = Inr c" by (simp add: s2_fields c)
  note fin = finish_polygon_enough [OF n2 i2 c2 \<open>image_ok s2\<close>]
  show "let s1 = snd (finish_polygon s);
            r2 = add_polygon_point x y s1;
            r3 = finish_polygon (snd r2);
            filename = basename (image_paths s ! nat (current_index s))
        in fst r2 = None
         \<and> current_polygon (snd r2) = current_polygon s @ [(x, y)]
         \<and> fst r3 = None
         \<and> current_polygon (snd r3) = []
         \<and> (\<exists>c. calculate_centroid (current_polygon s @ [(x, y)]) = Inr c
                \<and> current_centroid (snd r3) = Some c
                \<and> annotations (snd r3) = record_centroid filename c (annotations s)
                \<and> (\<exists>cs. (filename, cs @ [c]) \<in> set (annotations (snd r3))))
         \<and> effects (snd r3) = effects s @ [Warning NeedThreePoints]
                @ (if auto_advance s then [SingleShot 1000 NextImage] else [])"
    unfolding Let_def fp snd_conv s2_def [symmetric]
    using r2 fin c record_centroid_has_entry [of "basename (image_paths s ! nat (current_index s))" c "annotations s"]
    by (simp add: s2_fields)
qed


text \<open>Two vertices pending in the tool as constructed.\<close>

theorem finish_too_few_changes_nothing_else_witness:
  "length (current_polygon ((init_tool 800 600)\<lparr> current_polygon := [(1, 2), (3, 4)] \<rparr>)) < 3
   \<and> annotations (snd (finish_polygon ((init_tool 800 600)\<lparr> current_polygon := [(1, 2), (3, 4)] \<rparr>))) = []
   \<and> current_centroid (snd (finish_polygon ((init_tool 800 600)\<lparr> current_polygon := [(1, 2), (3, 4)] \<rparr>))) = None
   \<and> current_index (snd (finish_polygon ((init_tool 800 600)\<lparr> current_polygon := [(1, 2), (3, 4)] \<rparr>))) = 0
   \<and> effects (snd (finish_polygon ((init_tool 800 600)\<lparr> current_polygon := [(1, 2), (3, 4)] \<rparr>)))
        = [Warning NeedThreePoints]"
  using finish_too_few_changes_nothing_else
    [of "(init_tool 800 600)\<lparr> current_polygon := [(1, 2), (3, 4)] \<rparr>"]
  by (simp add: init_tool_def)

lemma zoom_set_zoom: "zoom (snd (set_zoom v s)) = max 10 (min 500 v)"
  by (simp add: set_zoom_def update_display_keeps)

lemma zoom_then_do_label:
  "zoom (snd (then_do r (\<lambda>s1. (None, s1\<lparr> zoom_label := v \<rparr>)))) = zoom (snd r)"
  by (simp add: then_do_def split: option.split)

lemma zoom_on_zoom_changed: "zoom (snd (on_zoom_changed v s)) = max 10 (min 500 v)"
  by (simp add: on_zoom_changed_def zoom_then_do_label zoom_set_zoom)

lemma zoom_adjust_zoom:
  "zoom (snd (adjust_zoom zi s)) = min 500 (max 10 (zoom s + (if zi then 20 else - 20)))"
proof -
  define nz where "nz = min 500 (max 10 (zoom s + (if zi then 20 else - 20)))"
  have nz: "max 10 (min 500 nz) = nz" by (simp add: nz_def)
  have sl: "fst (slider_setValue nz s) \<noteq> None \<Longrightarrow> zoom (snd (slider_setValue nz s)) = nz"
    by (auto simp: slider_setValue_def Let_def nz zoom_on_zoom_changed split: if_splits)
  show ?thesis
    unfolding adjust_zoom_def Let_def nz_def[symmetric]
    using sl nz
    by (cases "fst (slider_setValue nz s)")
       (simp_all add: then_do_def zoom_set_zoom split: option.split)
qed

lemma zoom_then_do:
  assumes "\<And>s1. zoom (snd (f s1)) = zoom s1"
  shows "zoom (snd (then_do r f)) = zoom (snd r)"
  using assms by (simp add: then_do_def split: option.split)

lemma zoom_unchanged:
  "zoom (snd (add_polygon_point x y s)) = zoom s"
  "zoom (snd (clear_current s)) = zoom s"
  "zoom (snd (finish_polygon s)) = zoom s"
  "zoom (snd (handle_click pos s)) = zoom s"
  "zoom (snd (mousePressEvent b pos s)) = zoom s"
  "zoom (snd (load_current_image imread s)) = zoom s"
  "zoom (snd (prev_image imread s)) = zoom s"
  "zoom (snd (next_image imread s)) = zoom s"
  "zoom (save_centroids save_path writable s) = zoom s"
proof -
  show a: "zoom (snd (add_polygon_point x y s)) = zoom s" for x y s
    by (simp add: add_polygon_point_def update_display_keeps)
  show "zoom (snd (clear_current s)) = zoom s"
    by (simp add: clear_current_def update_display_keeps)
  show f: "zoom (snd (finish_polygon s)) = zoom s" for s
    by (simp add: finish_polygon_def Let_def zoom_then_do update_display_keeps
        update_marked_count_def split: sum.split)
  show h: "zoom (snd (handle_click pos s)) = zoom s" for pos s
    by (simp add: handle_click_def a split: sum.split option.split prod.split)
  show "zoom (snd (mousePressEvent b pos s)) = zoom s"
    by (simp add: mousePressEvent_def f h)
  show l: "zoom (snd (load_current_image imread s)) = zoom s" for imread s
    by (simp add: load_current_image_def Let_def zoom_then_do update_display_keeps
        update_marked_count_def split: option.split prod.split)
  show "zoom (snd (prev_image imread s)) = zoom s"
    by (simp add: prev_image_def l)
  show "zoom (snd (next_image imread s)) = zoom s"
    by (simp add: next_image_def l)
  show "zoom (save_centroids save_path writable s) = zoom s"
    by (simp add: save_centroids_def)
qed

text \<open>
  Claim C7. \<open>set_zoom\<close> stores its argument bounded to 10..500, so 1000 gives 500
  and -5 gives 10; \<open>adjust_zoom\<close> stores the old zoom plus or minus 20, bounded to
  10..500, so a step up from 500 stays at 500; \<open>zoom_to_fit\<close> stores 100, the
  slider's signal stores its value bounded, and the tool starts at 100. The stored
  value holds whether or not the redraw that follows raises. Every other method
  leaves the zoom as it was, so the zoom is within 10..500 at all times.
\<close>

theorem zoom_kept_in_range:
  "zoom (snd (set_zoom v s)) = max 10 (min 500 v)
   \<and> 10 \<le> zoom (snd (set_zoom v s)) \<and> zoom (snd (set_zoom v s)) \<le> 500
   \<and> zoom (snd (set_zoom 1000 s)) = 500
   \<and> zoom (snd (set_zoom (- 5) s)) = 10
   \<and> zoom (snd (adjust_zoom zoom_in s)) = max 10 (min 500 (zoom s + (if zoom_in then 20 else - 20)))
   \<and> 10 \<le> zoom (snd (adjust_zoom zoom_in s)) \<and> zoom (snd (adjust_zoom zoom_in s)) \<le> 500
   \<and> zoom (snd (adjust_zoom True (s\<lparr> zoom := 500 \<rparr>))) = 500
   \<and> zoom (snd (zoom_to_fit s)) = 100
   \<and> zoom (init_tool lw lh) = 100
   \<and> zoom (snd (on_zoom_changed v s)) = max 10 (min 500 v)
   \<and> zoom (snd (add_polygon_point x y s)) = zoom s
   \<and> zoom (snd (clear_current s)) = zoom s
   \<and> zoom (snd (finish_polygon s)) = zoom s
   \<and> zoom (snd (mousePressEvent b pos s)) = zoom s
   \<and> zoom (snd (prev_image imread s)) = zoom s
   \<and> zoom (snd (next_image imread s)) = zoom s
   \<and> zoom (save_centroids save_path writable s) = zoom s"
proof -
  have fit: "zoom (snd (zoom_to_fit s)) = 100"
  proof (cases "fst (slider_setValue 100 s)")
    case None
    then show ?thesis
      by (simp add: zoom_to_fit_def then_do_def zoom_set_zoom split: option.split)
  next
    case (Some e)
    then have "zoom (snd (slider_setValue 100 s)) = 100"
      by (auto simp: slider_setValue_def Let_def zoom_on_zoom_changed split: if_splits)
    with Some show ?thesis by (simp add: zoom_to_fit_def then_do_def)
  qed
  have start: "zoom (init_tool lw lh) = 100" by (simp add: init_tool_def)
  show ?thesis
    by (simp add: zoom_set_zoom zoom_adjust_zoom zoom_on_zoom_changed fit start zoom_unchanged)
qed




section \<open>The centroid computation\<close>

lemma py_int_nonneg: "0 \<le> q \<Longrightarrow> py_int q = \<lfloor>q\<rfloor>"
  by (simp add: py_int_def)

lemma py_int_bounds:
  "\<bar>of_int (py_int q)\<bar> \<le> \<bar>q\<bar>"
  "\<bar>q\<bar> < \<bar>of_int (py_int q)\<bar> + 1"
  "0 \<le> of_int (py_int q) * q"
proof -
  have neg: "q < 0 \<Longrightarrow> (of_int \<lceil>q\<rceil> :: rat) \<le> 0 \<and> q \<le> of_int \<lceil>q\<rceil> \<and> of_int \<lceil>q\<rceil> < q + 1"
    using ceiling_correct [of q] by (simp add: ceiling_le_iff)
  have pos: "\<not> q < 0 \<Longrightarrow> (0 :: rat) \<le> of_int \<lfloor>q\<rfloor> \<and> of_int \<lfloor>q\<rfloor> \<le> q \<and> q < of_int \<lfloor>q\<rfloor> + 1"
    using floor_correct [of q] by simp
  show "\<bar>of_int (py_int q)\<bar> \<le> \<bar>q\<bar>"
    using neg pos by (cases "q < 0") (simp_all add: py_int_def)
  show "\<bar>q\<bar> < \<bar>of_int (py_int q)\<bar> + 1"
    using neg pos by (cases "q < 0") (simp_all add: py_int_def)
  show "0 \<le> of_int (py_int q) * q"
    using neg pos by (cases "q < 0") (simp_all add: py_int_def mult_nonpos_nonpos)
qed


lemma abs_mult_bound:
  fixes a b :: int
  assumes "\<bar>a\<bar> \<le> A" and "\<bar>b\<bar> \<le> C"
  shows "\<bar>a * b\<bar> \<le> A * C"
proof -
  have "\<bar>a * b\<bar> = \<bar>a\<bar> * \<bar>b\<bar>" by (rule abs_mult)
  also have "\<dots> \<le> A * C" using assms by (intro mult_mono) auto
  finally show ?thesis .
qed

lemma float_ops_of_int:
  fixes a b :: int
  shows "\<bar>a * b\<bar> \<le> 2 ^ 53 \<Longrightarrow> float_mul (of_int a) (of_int b) = of_int (a * b)"
    and "\<bar>a + b\<bar> \<le> 2 ^ 53 \<Longrightarrow> float_add (of_int a) (of_int b) = of_int (a + b)"
    and "\<bar>a - b\<bar> \<le> 2 ^ 53 \<Longrightarrow> float_sub (of_int a) (of_int b) = of_int (a - b)"
  using fl64_of_int [of "a * b"] fl64_of_int [of "a + b"] fl64_of_int [of "a - b"]
  by (simp_all add: float_mul_def float_add_def float_sub_def)

lemma to_float32_exact:
  assumes "\<bar>fst p\<bar> \<le> 2 ^ 24" and "\<bar>snd p\<bar> \<le> 2 ^ 24"
  shows "to_float32 p = (of_int (fst p), of_int (snd p))"
proof -
  have "\<bar>fst p\<bar> \<le> 2 ^ 53" "\<bar>snd p\<bar> \<le> 2 ^ 53" using assms by simp_all
  then show ?thesis using assms by (simp add: to_float32_def fl64_of_int fl32_of_int)
qed

lemma edge_bounds:
  fixes x1 y1 x2 y2 B :: int
  assumes b: "\<bar>x1\<bar> \<le> B" "\<bar>y1\<bar> \<le> B" "\<bar>x2\<bar> \<le> B" "\<bar>y2\<bar> \<le> B"
  shows "\<bar>edge_cross ((x1, y1), (x2, y2))\<bar> \<le> 2 * B ^ 2"
    and "\<bar>(x1 + x2) * edge_cross ((x1, y1), (x2, y2))\<bar> \<le> 4 * B ^ 3"
    and "\<bar>(y1 + y2) * edge_cross ((x1, y1), (x2, y2))\<bar> \<le> 4 * B ^ 3"
    and "\<bar>x1 * y2\<bar> \<le> B ^ 2" and "\<bar>x2 * y1\<bar> \<le> B ^ 2"
proof -
  define d where "d = edge_cross ((x1, y1), (x2, y2))"
  have d: "d = x1 * y2 - x2 * y1" by (simp add: d_def edge_cross_def)
  have p1: "\<bar>x1 * y2\<bar> \<le> B * B" using b by (intro abs_mult_bound) simp_all
  have p2: "\<bar>x2 * y1\<bar> \<le> B * B" using b by (intro abs_mult_bound) simp_all
  have dB: "\<bar>d\<bar> \<le> 2 * (B * B)" using p1 p2 unfolding d by linarith
  have sx: "\<bar>x1 + x2\<bar> \<le> 2 * B" and sy: "\<bar>y1 + y2\<bar> \<le> 2 * B" using b by linarith+
  have mx: "\<bar>(x1 + x2) * d\<bar> \<le> 2 * B * (2 * (B * B))" using sx dB by (rule abs_mult_bound)
  have my: "\<bar>(y1 + y2) * d\<bar> \<le> 2 * B * (2 * (B * B))" using sy dB by (rule abs_mult_bound)
  have e3: "2 * B * (2 * (B * B)) = 4 * B ^ 3" by (simp add: power3_eq_cube)
  have e2: "2 * (B * B) = 2 * B ^ 2" by (simp add: power2_eq_square)
  show "\<bar>edge_cross ((x1, y1), (x2, y2))\<bar> \<le> 2 * B ^ 2"
    using dB by (simp add: d_def e2)
  show "\<bar>(x1 + x2) * edge_cross ((x1, y1), (x2, y2))\<bar> \<le> 4 * B ^ 3"
    using mx by (simp only: d_def e3)
  show "\<bar>(y1 + y2) * edge_cross ((x1, y1), (x2, y2))\<bar> \<le> 4 * B ^ 3"
    using my by (simp only: d_def e3)
  show "\<bar>x1 * y2\<bar> \<le> B ^ 2" "\<bar>x2 * y1\<bar> \<le> B ^ 2"
    using p1 p2 by (simp_all add: power2_eq_square)
qed

lemma contour_step_exact:
  fixes x1 y1 x2 y2 a00 a10 a01 B :: int
  assumes b: "\<bar>x1\<bar> \<le> B" "\<bar>y1\<bar> \<le> B" "\<bar>x2\<bar> \<le> B" "\<bar>y2\<bar> \<le> B"
    and B: "B \<le> 2 ^ 24"
    and s0: "\<bar>a00\<bar> + 2 * B ^ 2 \<le> 2 ^ 53"
    and s1: "\<bar>a10\<bar> + 4 * B ^ 3 \<le> 2 ^ 53"
    and s2: "\<bar>a01\<bar> + 4 * B ^ 3 \<le> 2 ^ 53"
  shows "float_sub (float_mul (of_int x1) (of_int y2)) (float_mul (of_int x2) (of_int y1))
           = of_int (edge_cross ((x1, y1), (x2, y2)))"
    and "float_add (of_int x1) (of_int x2) = of_int (x1 + x2)"
    and "float_add (of_int y1) (of_int y2) = of_int (y1 + y2)"
    and "float_add (of_int a00) (of_int (edge_cross ((x1, y1), (x2, y2))))
           = of_int (a00 + edge_cross ((x1, y1), (x2, y2)))"
    and "float_add (of_int a10) (float_mul (of_int (edge_cross ((x1, y1), (x2, y2)))) (of_int (x1 + x2)))
           = of_int (a10 + (x1 + x2) * edge_cross ((x1, y1), (x2, y2)))"
    and "float_add (of_int a01) (float_mul (of_int (edge_cross ((x1, y1), (x2, y2)))) (of_int (y1 + y2)))
           = of_int (a01 + (y1 + y2) * edge_cross ((x1, y1), (x2, y2)))"
proof -
  note eb = edge_bounds [OF b]
  have B0: "0 \<le> B" using b(1) by linarith
  have BB: "B ^ 2 \<le> 2 ^ 48"
  proof -
    have "B ^ 2 \<le> (2 ^ 24) ^ 2" using B B0 by (intro power_mono) simp_all
    then show ?thesis by simp
  qed
  have sx: "\<bar>x1 + x2\<bar> \<le> 2 * B" and sy: "\<bar>y1 + y2\<bar> \<le> 2 * B" using b by linarith+
  have m1: "float_mul (of_int x1) (of_int y2) = of_int (x1 * y2)"
    using eb(4) BB by (intro float_ops_of_int) simp
  have m2: "float_mul (of_int x2) (of_int y1) = of_int (x2 * y1)"
    using eb(5) BB by (intro float_ops_of_int) simp
  have ec: "edge_cross ((x1, y1), (x2, y2)) = x1 * y2 - x2 * y1" by (simp add: edge_cross_def)
  show "float_sub (float_mul (of_int x1) (of_int y2)) (float_mul (of_int x2) (of_int y1))
           = of_int (edge_cross ((x1, y1), (x2, y2)))"
    unfolding m1 m2 ec
    using eb(1) BB unfolding ec by (intro float_ops_of_int) simp
  show "float_add (of_int x1) (of_int x2) = of_int (x1 + x2)"
    using sx B by (intro float_ops_of_int) simp
  show "float_add (of_int y1) (of_int y2) = of_int (y1 + y2)"
    using sy B by (intro float_ops_of_int) simp
  show "float_add (of_int a00) (of_int (edge_cross ((x1, y1), (x2, y2))))
           = of_int (a00 + edge_cross ((x1, y1), (x2, y2)))"
    using eb(1) s0 by (intro float_ops_of_int) linarith
  have m3: "float_mul (of_int (edge_cross ((x1, y1), (x2, y2)))) (of_int (x1 + x2))
      = of_int ((x1 + x2) * edge_cross ((x1, y1), (x2, y2)))"
    using float_ops_of_int(1) [of "edge_cross ((x1, y1), (x2, y2))" "x1 + x2"] eb(2) s1
    by (simp add: mult.commute)
  have m4: "float_mul (of_int (edge_cross ((x1, y1), (x2, y2)))) (of_int (y1 + y2))
      = of_int ((y1 + y2) * edge_cross ((x1, y1), (x2, y2)))"
    using float_ops_of_int(1) [of "edge_cross ((x1, y1), (x2, y2))" "y1 + y2"] eb(3) s2
    by (simp add: mult.commute)
  show "float_add (of_int a10) (float_mul (of_int (edge_cross ((x1, y1), (x2, y2)))) (of_int (x1 + x2)))
           = of_int (a10 + (x1 + x2) * edge_cross ((x1, y1), (x2, y2)))"
    unfolding m3 using eb(2) s1 by (intro float_ops_of_int) linarith
  show "float_add (of_int a01) (float_mul (of_int (edge_cross ((x1, y1), (x2, y2)))) (of_int (y1 + y2)))
           = of_int (a01 + (y1 + y2) * edge_cross ((x1, y1), (x2, y2)))"
    unfolding m4 using eb(3) s2 by (intro float_ops_of_int) linarith
qed

lemma contour_sums_exact:
  fixes ps :: "point list" and B :: int
  assumes "\<forall>p\<in>set (prev # ps). \<bar>fst p\<bar> \<le> B \<and> \<bar>snd p\<bar> \<le> B"
    and "B \<le> 2 ^ 24"
    and "\<bar>a00\<bar> + 2 * B ^ 2 * int (length ps) \<le> 2 ^ 53"
    and "\<bar>a10\<bar> + 4 * B ^ 3 * int (length ps) \<le> 2 ^ 53"
    and "\<bar>a01\<bar> + 4 * B ^ 3 * int (length ps) \<le> 2 ^ 53"
  shows "contour_sums (of_int (fst prev), of_int (snd prev))
           (map (\<lambda>p. (of_int (fst p), of_int (snd p))) ps) (of_int a00, of_int a10, of_int a01) =
     (of_int (a00 + sum_list (map edge_cross (zip (prev # ps) ps))),
      of_int (a10 + sum_list (map (\<lambda>e. (fst (fst e) + fst (snd e)) * edge_cross e) (zip (prev # ps) ps))),
      of_int (a01 + sum_list (map (\<lambda>e. (snd (fst e) + snd (snd e)) * edge_cross e) (zip (prev # ps) ps))))"
  using assms
proof (induction ps arbitrary: prev a00 a10 a01)
  case Nil
  then show ?case by simp
next
  case (Cons p ps)
  obtain x1 y1 where prev: "prev = (x1, y1)" by (cases prev)
  obtain x2 y2 where p: "p = (x2, y2)" by (cases p)
  define d where "d = edge_cross ((x1, y1), (x2, y2))"
  have b: "\<bar>x1\<bar> \<le> B" "\<bar>y1\<bar> \<le> B" "\<bar>x2\<bar> \<le> B" "\<bar>y2\<bar> \<le> B"
    using Cons.prems(1) by (simp_all add: prev p)
  have B0: "0 \<le> B" using b(1) by linarith
  define L2 where "L2 = 2 * B ^ 2 * int (length ps)"
  define L3 where "L3 = 4 * B ^ 3 * int (length ps)"
  have n: "0 \<le> L2" "0 \<le> L3" using B0 by (simp_all add: L2_def L3_def)
  have e2: "2 * B ^ 2 * int (length (p # ps)) = 2 * B ^ 2 + L2"
    and e3: "4 * B ^ 3 * int (length (p # ps)) = 4 * B ^ 3 + L3"
    by (simp_all add: L2_def L3_def algebra_simps)
  have s0: "\<bar>a00\<bar> + 2 * B ^ 2 \<le> 2 ^ 53" and s1: "\<bar>a10\<bar> + 4 * B ^ 3 \<le> 2 ^ 53"
    and s2: "\<bar>a01\<bar> + 4 * B ^ 3 \<le> 2 ^ 53"
    using Cons.prems(3,4,5) n unfolding e2 e3 by linarith+
  note st = contour_step_exact [OF b Cons.prems(2) s0 s1 s2, folded d_def]
  note eb = edge_bounds [OF b, folded d_def]
  have bounds: "\<forall>q\<in>set (p # ps). \<bar>fst q\<bar> \<le> B \<and> \<bar>snd q\<bar> \<le> B"
    using Cons.prems(1) by simp
  have t0: "\<bar>a00 + d\<bar> + 2 * B ^ 2 * int (length ps) \<le> 2 ^ 53"
    using eb(1) Cons.prems(3) unfolding e2 L2_def [symmetric] by linarith
  have t1: "\<bar>a10 + (x1 + x2) * d\<bar> + 4 * B ^ 3 * int (length ps) \<le> 2 ^ 53"
    using eb(2) Cons.prems(4) unfolding e3 L3_def [symmetric] by linarith
  have t2: "\<bar>a01 + (y1 + y2) * d\<bar> + 4 * B ^ 3 * int (length ps) \<le> 2 ^ 53"
    using eb(3) Cons.prems(5) unfolding e3 L3_def [symmetric] by linarith
  note ih = Cons.IH [OF bounds Cons.prems(2) t0 t1 t2]
  let ?f = "\<lambda>p :: point. (rat_of_int (fst p), rat_of_int (snd p))"
  have step: "contour_sums (of_int x1, of_int y1) ((of_int x2, of_int y2) # map ?f ps)
        (of_int a00, of_int a10, of_int a01)
      = contour_sums (of_int x2, of_int y2) (map ?f ps)
          (of_int (a00 + d), of_int (a10 + (x1 + x2) * d), of_int (a01 + (y1 + y2) * d))"
    by (simp only: contour_sums.simps Let_def st)
  have "contour_sums (of_int (fst prev), of_int (snd prev)) (map ?f (p # ps))
          (of_int a00, of_int a10, of_int a01)
      = contour_sums (of_int x1, of_int y1) ((of_int x2, of_int y2) # map ?f ps)
          (of_int a00, of_int a10, of_int a01)"
    by (simp only: prev p list.map fst_conv snd_conv)
  also note step
  also have "contour_sums (of_int x2, of_int y2) (map ?f ps)
          (of_int (a00 + d), of_int (a10 + (x1 + x2) * d), of_int (a01 + (y1 + y2) * d))
      = (of_int (a00 + d + sum_list (map edge_cross (zip (p # ps) ps))),
         of_int (a10 + (x1 + x2) * d
            + sum_list (map (\<lambda>e. (fst (fst e) + fst (snd e)) * edge_cross e) (zip (p # ps) ps))),
         of_int (a01 + (y1 + y2) * d
            + sum_list (map (\<lambda>e. (snd (fst e) + snd (snd e)) * edge_cross e) (zip (p # ps) ps))))"
    using ih by (simp only: p fst_conv snd_conv)
  also have "\<dots> =
     (of_int (a00 + sum_list (map edge_cross (zip (prev # p # ps) (p # ps)))),
      of_int (a10 + sum_list (map (\<lambda>e. (fst (fst e) + fst (snd e)) * edge_cross e) (zip (prev # p # ps) (p # ps)))),
      of_int (a01 + sum_list (map (\<lambda>e. (snd (fst e) + snd (snd e)) * edge_cross e) (zip (prev # p # ps) (p # ps)))))"
    by (simp add: prev p d_def)
  finally show ?case .
qed

lemma abs_sum_list_bound:
  fixes f :: "'a \<Rightarrow> int"
  assumes "\<forall>e\<in>set es. \<bar>f e\<bar> \<le> c"
  shows "\<bar>sum_list (map f es)\<bar> \<le> c * int (length es)"
  using assms
proof (induction es)
  case Nil
  then show ?case by simp
next
  case (Cons e es)
  then have "\<bar>f e\<bar> \<le> c" "\<bar>sum_list (map f es)\<bar> \<le> c * int (length es)" by simp_all
  then show ?case by (simp add: algebra_simps)
qed

lemma closed_path_edges_bounded:
  assumes "\<forall>p\<in>set pts. \<bar>fst p\<bar> \<le> B \<and> \<bar>snd p\<bar> \<le> B" and "e \<in> set (closed_path_edges pts)"
  shows "\<bar>fst (fst e)\<bar> \<le> B \<and> \<bar>snd (fst e)\<bar> \<le> B \<and> \<bar>fst (snd e)\<bar> \<le> B \<and> \<bar>snd (snd e)\<bar> \<le> B"
proof -
  obtain a b where e: "e = (a, b)" by (cases e)
  from assms(2) have "a \<in> set pts" "b \<in> set (rotate1 pts)"
    unfolding closed_path_edges_def e by (auto dest: set_zip_leftD set_zip_rightD)
  then show ?thesis using assms(1) by (simp add: e)
qed

lemma closed_path_sums_bounded:
  fixes B :: int
  assumes "\<forall>p\<in>set pts. \<bar>fst p\<bar> \<le> B \<and> \<bar>snd p\<bar> \<le> B"
  shows "\<bar>spec_area2 pts\<bar> \<le> 2 * B ^ 2 * int (length pts)"
    and "\<bar>spec_moment_x pts\<bar> \<le> 4 * B ^ 3 * int (length pts)"
    and "\<bar>spec_moment_y pts\<bar> \<le> 4 * B ^ 3 * int (length pts)"
proof -
  have len: "length (closed_path_edges pts) = length pts"
    by (simp add: closed_path_edges_def)
  have e: "\<bar>edge_cross e\<bar> \<le> 2 * B ^ 2
      \<and> \<bar>(fst (fst e) + fst (snd e)) * edge_cross e\<bar> \<le> 4 * B ^ 3
      \<and> \<bar>(snd (fst e) + snd (snd e)) * edge_cross e\<bar> \<le> 4 * B ^ 3"
    if "e \<in> set (closed_path_edges pts)" for e
  proof -
    obtain x1 y1 x2 y2 where ee: "e = ((x1, y1), (x2, y2))" by (cases e) auto
    from closed_path_edges_bounded [OF assms(1) that]
    have b: "\<bar>x1\<bar> \<le> B" "\<bar>y1\<bar> \<le> B" "\<bar>x2\<bar> \<le> B" "\<bar>y2\<bar> \<le> B" by (simp_all add: ee)
    from edge_bounds(1,2,3) [OF b] show ?thesis by (simp add: ee)
  qed
  show "\<bar>spec_area2 pts\<bar> \<le> 2 * B ^ 2 * int (length pts)"
    unfolding spec_area2_def using abs_sum_list_bound [of "closed_path_edges pts" edge_cross "2 * B ^ 2"] e
    by (simp add: len)
  show "\<bar>spec_moment_x pts\<bar> \<le> 4 * B ^ 3 * int (length pts)"
    unfolding spec_moment_x_def
    using abs_sum_list_bound [of "closed_path_edges pts" "\<lambda>e. (fst (fst e) + fst (snd e)) * edge_cross e" "4 * B ^ 3"] e
    by (simp add: len)
  show "\<bar>spec_moment_y pts\<bar> \<le> 4 * B ^ 3 * int (length pts)"
    unfolding spec_moment_y_def
    using abs_sum_list_bound [of "closed_path_edges pts" "\<lambda>e. (snd (fst e) + snd (snd e)) * edge_cross e" "4 * B ^ 3"] e
    by (simp add: len)
qed

lemma power_int_two_le_cancel:
  "(2::rat) powi a \<le> 2 powi b \<Longrightarrow> a \<le> b"
proof (rule ccontr)
  assume le: "(2::rat) powi a \<le> 2 powi b" and "\<not> a \<le> b"
  then have "b + 1 \<le> a" by simp
  then have "(2::rat) powi (b + 1) \<le> 2 powi a" by (intro power_int_increasing) simp_all
  with le have "(2::rat) powi (b + 1) \<le> 2 powi b" by linarith
  then show False by (simp add: power_int_add)
qed

lemma power_int_two_less_cancel:
  "(2::rat) powi a < 2 powi b \<Longrightarrow> a < b"
proof (rule ccontr)
  assume lt: "(2::rat) powi a < 2 powi b" and "\<not> a < b"
  then have "b \<le> a" by simp
  then have "(2::rat) powi b \<le> 2 powi a" by (intro power_int_increasing) simp_all
  with lt show False by linarith
qed

lemma fl64_below_half_int:
  fixes n :: int
  assumes n: "\<bar>n\<bar> \<le> 2 ^ 52"
  shows "fl64 (of_int n / 2 * (1 - 1 / 2 ^ 54)) = of_int n / 2"
proof (cases "n = 0")
  case True
  then show ?thesis by simp
next
  case False
  define V :: rat where "V = of_int n / 2"
  define x :: rat where "x = V * (1 - 1 / 2 ^ 54)"
  define e where "e = binexp V"
  define q :: rat where "q = 2 powi (e - 52)"
  have V0: "V \<noteq> 0" using False by (simp add: V_def)
  have lo: "2 powi e \<le> \<bar>V\<bar>" and hi: "\<bar>V\<bar> < 2 powi (e + 1)"
    using binexp_bounds [OF V0] by (simp_all add: e_def)
  have q: "0 < q" by (simp add: q_def)
  have absV: "\<bar>V\<bar> = of_int \<bar>n\<bar> / 2" by (simp add: V_def)
  have "(of_int \<bar>n\<bar> :: rat) \<le> of_int (2 ^ 52)" using n by (simp only: of_int_le_iff)
  then have Vle: "\<bar>V\<bar> \<le> 2 powi 51" by (simp add: absV)
  have "1 \<le> \<bar>n\<bar>" using False by simp
  then have "(of_int 1 :: rat) \<le> of_int \<bar>n\<bar>" by (simp only: of_int_le_iff)
  then have Vge: "2 powi (- 1) \<le> \<bar>V\<bar>" by (simp add: absV power_int_minus)
  have e_hi: "e \<le> 51" using lo Vle by (intro power_int_two_le_cancel) linarith
  have "- 1 < e + 1" using Vge hi by (intro power_int_two_less_cancel) linarith
  then have e_lo: "- 1 \<le> e" by simp
  define j where "j = nat (51 - e)"
  have j: "int j = 51 - e" using e_hi by (simp add: j_def)
  define m where "m = n * 2 ^ j"
  have "(of_int m :: rat) * q = of_int n * (2 powi (int j) * 2 powi (e - 52))"
    by (simp add: m_def q_def)
  also have "(2::rat) powi (int j) * 2 powi (e - 52) = 2 powi (int j + (e - 52))"
    by (rule power_int_add [symmetric]) simp
  also have "int j + (e - 52) = - 1" using j by simp
  finally have Vm: "of_int m * q = V" by (simp add: V_def power_int_minus)
  have absVm: "\<bar>V\<bar> = of_int \<bar>m\<bar> * q" using q by (simp add: Vm [symmetric] abs_mult)
  have pe: "(2::rat) powi e = 2 ^ 52 * q"
  proof -
    have "e = 52 + (e - 52)" by arith
    then have "(2::rat) powi e = 2 powi (52 + (e - 52))" by simp
    also have "\<dots> = 2 powi 52 * 2 powi (e - 52)" by (rule power_int_add) simp
    finally show ?thesis by (simp add: q_def)
  qed
  have pe1: "(2::rat) powi (e + 1) = 2 ^ 53 * q"
  proof -
    have "e + 1 = 53 + (e - 52)" by arith
    then have "(2::rat) powi (e + 1) = 2 powi (53 + (e - 52))" by (rule arg_cong)
    also have "\<dots> = 2 powi 53 * 2 powi (e - 52)" by (rule power_int_add) simp
    finally show ?thesis by (simp add: q_def)
  qed
  have "(2 ^ 52 :: rat) * q \<le> of_int \<bar>m\<bar> * q" using lo unfolding pe absVm .
  then have "(of_int (2 ^ 52) :: rat) \<le> of_int \<bar>m\<bar>" using q by simp
  then have m_lo: "2 ^ 52 \<le> \<bar>m\<bar>" by (simp only: of_int_le_iff)
  have "of_int \<bar>m\<bar> * q < (2 ^ 53 :: rat) * q" using hi unfolding pe1 absVm .
  then have "(of_int \<bar>m\<bar> :: rat) < of_int (2 ^ 53)" using q by simp
  then have m_hi: "\<bar>m\<bar> < 2 ^ 53" by (simp only: of_int_less_iff)
  have absx: "\<bar>x\<bar> = \<bar>V\<bar> - \<bar>V\<bar> / 2 ^ 54"
    by (simp add: x_def abs_mult algebra_simps)
  have xV: "\<bar>x - V\<bar> = \<bar>V\<bar> / 2 ^ 54" by (simp add: x_def algebra_simps)
  have small: "\<bar>V\<bar> / 2 ^ 54 < q / 2"
  proof -
    have "\<bar>V\<bar> / 2 ^ 54 < 2 ^ 53 * q / 2 ^ 54" using hi unfolding pe1
      by (intro divide_strict_right_mono) simp_all
    then show ?thesis by simp
  qed
  show ?thesis
  proof (cases "\<bar>m\<bar> = 2 ^ 52")
    case True
    have aV: "\<bar>V\<bar> = 2 ^ 52 * q" by (simp add: absVm True)
    have lo': "2 powi (e - 1) \<le> \<bar>x\<bar>"
    proof -
      have "e - 1 = 51 + (e - 52)" by arith
      then have "(2::rat) powi (e - 1) = 2 powi (51 + (e - 52))" by (rule arg_cong)
      also have "\<dots> = 2 powi 51 * 2 powi (e - 52)" by (rule power_int_add) simp
      finally have "(2::rat) powi (e - 1) = 2 ^ 51 * q" by (simp add: q_def)
      then show ?thesis using q by (simp add: absx aV)
    qed
    have hi': "\<bar>x\<bar> < 2 powi (e - 1 + 1)" using q by (simp add: absx aV pe)
    have be: "binexp x = e - 1" using lo' hi' by (rule binexp_unique)
    have pp: "(0::rat) < 2 powi (e - 1)" by simp
    have x0: "x \<noteq> 0"
    proof
      assume "x = 0"
      with lo' have "(2::rat) powi (e - 1) \<le> 0" by simp
      with pp show False by linarith
    qed
    have ex: "binexp x - (int 53 - 1) = e - 53" by (simp add: be)
    have qq: "(2::rat) powi (e - 53) = q / 2"
    proof -
      have "e - 53 = (e - 52) + (- 1)" by simp
      then have "(2::rat) powi (e - 53) = 2 powi ((e - 52) + (- 1))" by (rule arg_cong)
      also have "\<dots> = 2 powi (e - 52) * 2 powi (- 1)" by (rule power_int_add) simp
      finally show ?thesis by (simp add: q_def power_int_minus)
    qed
    have r: "fl64 x = of_int (round_half_even (x / (q / 2))) * (q / 2)"
      unfolding fl64_def round_to_def Let_def ex qq using x0 by simp
    have mm: "m = 2 ^ 52 \<or> m = - (2 ^ 52)" using True by (cases "m < 0") (simp_all add: abs_if)
    then have "round_half_even (x / (q / 2)) = 2 * m"
    proof
      assume "m = 2 ^ 52"
      then have xx: "x = 18014398509481983 / 4 * q" by (simp add: x_def Vm [symmetric])
      have xq: "x / (q / 2) = 18014398509481983 / 2" unfolding xx using q by simp
      have "\<lfloor>18014398509481983 / 2 :: rat\<rfloor> = 9007199254740991"
        by (simp add: floor_eq_iff)
      then have "round_half_even (18014398509481983 / 2) = 2 * 2 ^ 52"
        by (simp add: round_half_even_def Let_def)
      then show ?thesis unfolding xq \<open>m = 2 ^ 52\<close> .
    next
      assume "m = - (2 ^ 52)"
      then have xx: "x = - 18014398509481983 / 4 * q" by (simp add: x_def Vm [symmetric])
      have xq: "x / (q / 2) = - 18014398509481983 / 2" unfolding xx using q by simp
      have "\<lfloor>- 18014398509481983 / 2 :: rat\<rfloor> = - 9007199254740992"
        by (simp add: floor_eq_iff)
      then have "round_half_even (- 18014398509481983 / 2) = 2 * - (2 ^ 52)"
        by (simp add: round_half_even_def Let_def)
      then show ?thesis unfolding xq \<open>m = - (2 ^ 52)\<close> .
    qed
    then have "fl64 x = V" by (simp add: r Vm [symmetric])
    then show ?thesis by (simp add: x_def V_def)
  next
    case False
    with m_lo have "2 ^ 52 + 1 \<le> \<bar>m\<bar>" by simp
    then have "(of_int (2 ^ 52 + 1) :: rat) \<le> of_int \<bar>m\<bar>" by (simp only: of_int_le_iff)
    then have "(2 ^ 52 + 1) * q \<le> of_int \<bar>m\<bar> * q" using q by simp
    then have "2 powi e + q \<le> \<bar>V\<bar>" by (simp add: absVm pe algebra_simps)
    then have lo': "2 powi e \<le> \<bar>x\<bar>" using small q unfolding absx by linarith
    have "0 \<le> \<bar>V\<bar> / 2 ^ 54" by simp
    then have hi': "\<bar>x\<bar> < 2 powi (e + 1)" using hi unfolding absx by linarith
    have near: "\<bar>x - of_int m * 2 powi (e - (int 53 - 1))\<bar> < 2 powi (e - (int 53 - 1)) / 2"
      using small by (simp add: q_def [symmetric] Vm xV)
    have "round_to 53 x = of_int m * 2 powi (e - (int 53 - 1))"
      using lo' hi' near by (rule round_to_near)
    then have "fl64 x = V" by (simp add: fl64_def q_def [symmetric] Vm)
    then show ?thesis by (simp add: x_def V_def)
  qed
qed


lemma db1_6_factor: "db1_6 = 1 / 6 * (1 - 1 / 2 ^ 54)"
  by (simp add: db1_6_value)

lemma centroid_quotient_truncated:
  fixes M A :: int
  assumes A: "0 < A" and M: "\<bar>M\<bar> \<le> 2 ^ 51"
  shows "py_int (fl64 (fl64 (of_int M * db1_6) / (of_int A / 2))) = py_int (of_int M / (3 * of_int A))"
proof (cases "3 * A dvd M")
  case True
  then obtain k where k: "M = 3 * A * k" by (auto simp: dvd_def)
  have Ar: "(0::rat) < of_int A" using A by simp
  have "\<bar>A * k\<bar> \<le> \<bar>M\<bar>" by (simp add: k abs_mult)
  with M have n: "\<bar>A * k\<bar> \<le> 2 ^ 52" by simp
  have "\<bar>k\<bar> \<le> \<bar>A\<bar> * \<bar>k\<bar>" using A by (simp add: mult_le_cancel_right1)
  also have "\<dots> \<le> \<bar>M\<bar>" by (simp add: k abs_mult)
  finally have kb: "\<bar>k\<bar> \<le> 2 ^ 53" using M by simp
  have "of_int M * db1_6 = of_int (A * k) / 2 * (1 - 1 / 2 ^ 54)"
    by (simp add: k db1_6_factor)
  then have "fl64 (of_int M * db1_6) = of_int (A * k) / 2"
    by (simp only: fl64_below_half_int [OF n])
  then have "fl64 (of_int M * db1_6) / (of_int A / 2) = of_int k" using Ar by simp
  moreover have "(of_int M :: rat) / (3 * of_int A) = of_int k" using Ar by (simp add: k)
  ultimately show ?thesis using fl64_of_int [OF kb] by simp
next
  case False
  define V :: rat where "V = of_int M / 6"
  define x1 :: rat where "x1 = of_int M * db1_6"
  define q :: rat where "q = of_int M / (3 * of_int A)"
  define t :: rat where "t = fl64 x1 / (of_int A / 2)"
  define k where "k = \<lfloor>q\<rfloor>"
  define g :: rat where "g = 1 / (3 * of_int A)"
  have Ar: "(0::rat) < of_int A" using A by simp
  have g: "0 < g" using Ar by (simp add: g_def)
  have x1: "x1 = V - V / 2 ^ 54" by (simp add: x1_def V_def db1_6_factor algebra_simps)
  have ax1: "\<bar>x1\<bar> \<le> \<bar>V\<bar>"
  proof -
    have "x1 = V * (1 - 1 / 2 ^ 54)" by (simp add: x1 algebra_simps)
    then have "\<bar>x1\<bar> = \<bar>V\<bar> * (1 - 1 / 2 ^ 54)" by (simp add: abs_mult)
    also have "\<dots> \<le> \<bar>V\<bar> * 1" by (intro mult_left_mono) simp_all
    finally show ?thesis by simp
  qed
  have "\<bar>fl64 x1 - x1\<bar> \<le> \<bar>x1\<bar> / 2 ^ 53" by (rule fl64_error)
  also have "\<dots> \<le> \<bar>V\<bar> / 2 ^ 53" using ax1 by (intro divide_right_mono) simp_all
  finally have e1: "\<bar>fl64 x1 - x1\<bar> \<le> \<bar>V\<bar> / 2 ^ 53" .
  have xv: "\<bar>x1 - V\<bar> = \<bar>V\<bar> / 2 ^ 54" by (simp add: x1)
  have "\<bar>fl64 x1 - V\<bar> \<le> \<bar>fl64 x1 - x1\<bar> + \<bar>x1 - V\<bar>" by linarith
  also have "\<dots> \<le> \<bar>V\<bar> / 2 ^ 53 + \<bar>V\<bar> / 2 ^ 54" using e1 xv by linarith
  also have "\<dots> = 3 * \<bar>V\<bar> / 2 ^ 54" by simp
  finally have e2: "\<bar>fl64 x1 - V\<bar> \<le> 3 * \<bar>V\<bar> / 2 ^ 54" .
  define hA :: rat where "hA = of_int A / 2"
  have hA: "0 < hA" using Ar by (simp add: hA_def)
  have qV: "q = V / hA" by (simp add: q_def V_def hA_def)
  have tV: "t = fl64 x1 / hA" by (simp add: t_def hA_def)
  have aq: "\<bar>q\<bar> = \<bar>V\<bar> / hA" using hA by (simp add: qV abs_divide)
  have "t - q = (fl64 x1 - V) / hA" by (simp add: tV qV diff_divide_distrib)
  then have "\<bar>t - q\<bar> = \<bar>fl64 x1 - V\<bar> / hA" using hA by (simp add: abs_divide)
  also have "\<dots> \<le> (3 * \<bar>V\<bar> / 2 ^ 54) / hA"
    using e2 hA by (intro divide_right_mono) simp_all
  also have "\<dots> = 3 * \<bar>q\<bar> / 2 ^ 54" by (simp add: aq)
  finally have e3: "\<bar>t - q\<bar> \<le> 3 * \<bar>q\<bar> / 2 ^ 54" .
  have at: "\<bar>t\<bar> \<le> 2 * \<bar>q\<bar>"
  proof -
    have "3 * \<bar>q\<bar> / 2 ^ 54 \<le> \<bar>q\<bar>" by simp
    with e3 show ?thesis by linarith
  qed
  have "\<bar>fl64 t - t\<bar> \<le> \<bar>t\<bar> / 2 ^ 53" by (rule fl64_error)
  also have "\<dots> \<le> 2 * \<bar>q\<bar> / 2 ^ 53" using at by (intro divide_right_mono) simp_all
  finally have e4: "\<bar>fl64 t - t\<bar> \<le> 2 * \<bar>q\<bar> / 2 ^ 53" .
  have "\<bar>fl64 t - q\<bar> \<le> \<bar>fl64 t - t\<bar> + \<bar>t - q\<bar>" by linarith
  also have "\<dots> \<le> 2 * \<bar>q\<bar> / 2 ^ 53 + 3 * \<bar>q\<bar> / 2 ^ 54" using e3 e4 by linarith
  also have "\<dots> = 7 * \<bar>q\<bar> / 2 ^ 54" by simp
  finally have e5: "\<bar>fl64 t - q\<bar> \<le> 7 * \<bar>q\<bar> / 2 ^ 54" .
  have "(of_int \<bar>M\<bar> :: rat) \<le> of_int (2 ^ 51)" using M by (simp only: of_int_le_iff)
  then have Mr: "\<bar>of_int M :: rat\<bar> \<le> 2 ^ 51" by simp
  have "\<bar>q\<bar> = \<bar>of_int M\<bar> * g" using Ar by (simp add: q_def g_def abs_divide)
  also have "\<dots> \<le> 2 ^ 51 * g" using Mr g by (intro mult_right_mono) simp_all
  finally have "7 * \<bar>q\<bar> / 2 ^ 54 \<le> 7 * (2 ^ 51 * g) / 2 ^ 54" by (intro divide_right_mono) simp_all
  also have "\<dots> < g" using g by simp
  finally have e6: "\<bar>fl64 t - q\<bar> < g" using e5 by linarith
  have kq: "of_int k \<le> q" "q < of_int k + 1" by (simp_all add: k_def) linarith
  define T3 :: rat where "T3 = 3 * of_int A"
  have T3: "0 < T3" using Ar by (simp add: T3_def)
  have gT: "g * T3 = 1" using Ar by (simp add: g_def T3_def)
  have Mq: "(of_int M :: rat) = q * T3" using Ar by (simp add: q_def T3_def)
  have "of_int k * T3 \<le> q * T3" using kq(1) T3 by (intro mult_right_mono) simp_all
  then have "(of_int (3 * A * k) :: rat) \<le> of_int M"
    unfolding Mq by (simp add: T3_def mult.commute mult.left_commute)
  then have "3 * A * k \<le> M" by (simp only: of_int_le_iff)
  moreover have "M \<noteq> 3 * A * k" using False by auto
  ultimately have "3 * A * k + 1 \<le> M" by simp
  then have "(of_int (3 * A * k + 1) :: rat) \<le> of_int M" by (simp only: of_int_le_iff)
  moreover have "(of_int (3 * A * k + 1) :: rat) = of_int k * T3 + 1"
    by (simp add: T3_def mult.commute mult.left_commute)
  moreover have "(of_int k + g) * T3 = of_int k * T3 + 1" by (simp only: distrib_right gT)
  ultimately have "(of_int k + g) * T3 \<le> q * T3" by (simp only: Mq)
  then have lo: "of_int k + g \<le> q" using T3 by (simp add: mult_le_cancel_right)
  have "q * T3 < (of_int k + 1) * T3" using kq(2) T3 by (intro mult_strict_right_mono) simp_all
  moreover have "(of_int k + 1) * T3 = (of_int (3 * A * (k + 1)) :: rat)"
    by (simp add: T3_def algebra_simps)
  ultimately have "(of_int M :: rat) < of_int (3 * A * (k + 1))" by (simp only: Mq)
  then have "M < 3 * A * (k + 1)" by (simp only: of_int_less_iff)
  then have "M + 1 \<le> 3 * A * (k + 1)" by simp
  then have "(of_int (M + 1) :: rat) \<le> of_int (3 * A * (k + 1))" by (simp only: of_int_le_iff)
  moreover have "(q + g) * T3 = of_int (M + 1)"
    by (simp only: distrib_right gT Mq of_int_add of_int_1)
  moreover have "(of_int k + 1) * T3 = (of_int (3 * A * (k + 1)) :: rat)"
    by (simp add: T3_def algebra_simps)
  ultimately have "(q + g) * T3 \<le> (of_int k + 1) * T3" by (simp only:)
  then have hi: "q + g \<le> of_int k + 1" using T3 by (simp add: mult_le_cancel_right)
  have b1: "of_int k < fl64 t" and b2: "fl64 t < of_int k + 1" using e6 lo hi by linarith+
  have fl: "\<lfloor>fl64 t\<rfloor> = k" using b1 b2 by (simp add: floor_eq_iff)
  have cl: "\<lceil>fl64 t\<rceil> = k + 1" using b1 b2 by (simp add: ceiling_eq_iff)
  have qk: "of_int k < q" using lo g by linarith
  have cq: "\<lceil>q\<rceil> = k + 1" using qk kq(2) by (simp add: ceiling_eq_iff)
  have sg: "fl64 t < 0 \<longleftrightarrow> q < 0"
  proof
    assume "fl64 t < 0"
    with b1 have "(of_int k :: rat) < 0" by linarith
    then have "k + 1 \<le> 0" by simp
    then have "(of_int (k + 1) :: rat) \<le> 0" by (simp only: of_int_le_0_iff)
    with kq(2) show "q < 0" by simp
  next
    assume "q < 0"
    with kq(1) have "(of_int k :: rat) < 0" by linarith
    then have "k + 1 \<le> 0" by simp
    then have "(of_int (k + 1) :: rat) \<le> 0" by (simp only: of_int_le_0_iff)
    with b2 show "fl64 t < 0" by simp
  qed
  have "py_int (fl64 t) = py_int q"
    by (simp add: py_int_def sg fl cl cq) (simp add: k_def)
  then show ?thesis by (simp add: t_def x1_def q_def)
qed

lemma zip_closing_edge:
  "zip (x # rest) (rest @ [z]) = zip (x # rest) rest @ [(last (x # rest), z)]"
  by (induction rest arbitrary: x) simp_all

lemma sum_list_edges:
  fixes f :: "point \<times> point \<Rightarrow> int"
  assumes "ps \<noteq> []"
  shows "sum_list (map f (zip (last ps # ps) ps)) = sum_list (map f (closed_path_edges ps))"
proof -
  from assms obtain p rest where ps: "ps = p # rest" by (cases ps) auto
  show ?thesis
    unfolding ps closed_path_edges_def by (simp add: zip_closing_edge)
qed

lemma int_above_FLT_EPSILON: "\<bar>of_int a\<bar> > FLT_EPSILON \<longleftrightarrow> a \<noteq> 0"
proof
  assume "\<bar>of_int a\<bar> > FLT_EPSILON"
  then show "a \<noteq> 0" by (auto simp: FLT_EPSILON_def)
next
  assume "a \<noteq> 0"
  then have "1 \<le> \<bar>a\<bar>" by simp
  then have "(1 :: rat) \<le> \<bar>of_int a\<bar>"
    by (metis of_int_1 of_int_abs of_int_le_iff)
  then show "\<bar>of_int a\<bar> > FLT_EPSILON" by (simp add: FLT_EPSILON_def)
qed

text \<open>
  The size condition used below: every coordinate is at most \<open>B\<close> in magnitude and
  \<open>16 * N * B ^ 3 \<le> 2 ^ 53\<close> for the \<open>N\<close> vertices. It makes every intermediate
  value of the contour pass an integer below \<open>2 ^ 53\<close>, so that the pass is exact.
\<close>

lemma size_condition:
  fixes B :: int
  assumes bounds: "\<forall>p\<in>set pts. \<bar>fst p\<bar> \<le> B \<and> \<bar>snd p\<bar> \<le> B"
    and size: "16 * int (length pts) * B ^ 3 \<le> 2 ^ 53"
    and ne: "pts \<noteq> []"
  shows "0 \<le> B" and "B \<le> 2 ^ 24"
    and "2 * B ^ 2 * int (length pts) \<le> 2 ^ 53"
    and "4 * B ^ 3 * int (length pts) \<le> 2 ^ 51"
proof -
  from ne obtain p where "p \<in> set pts" by (cases pts) auto
  with bounds have "\<bar>fst p\<bar> \<le> B" by simp
  then show B0: "0 \<le> B" by linarith
  define N where "N = int (length pts)"
  have N: "1 \<le> N" using ne by (cases pts) (simp_all add: N_def)
  have c: "16 * N * B ^ 3 \<le> 2 ^ 53" using size by (simp add: N_def)
  have B3: "0 \<le> B ^ 3" using B0 by simp
  have "B ^ 3 * 1 \<le> B ^ 3 * N" using N B3 by (intro mult_left_mono) simp_all
  then have nb: "B ^ 3 \<le> N * B ^ 3" by (simp add: mult.commute)
  show "B \<le> 2 ^ 24"
  proof (rule ccontr)
    assume "\<not> B \<le> 2 ^ 24"
    then have "(2 ^ 24 :: int) ^ 3 \<le> B ^ 3" by (intro power_mono) simp_all
    with nb c show False by simp
  qed
  have "B ^ 2 * 1 \<le> B ^ 2 * B \<or> B = 0" using B0 by (cases "B = 0") (simp_all add: mult_le_cancel_left1)
  then have "B ^ 2 \<le> B ^ 3" by (auto simp: power3_eq_cube power2_eq_square)
  then have "B ^ 2 * N \<le> B ^ 3 * N" using N by (intro mult_right_mono) simp_all
  then show "2 * B ^ 2 * int (length pts) \<le> 2 ^ 53"
    using c by (simp add: N_def [symmetric] algebra_simps)
  show "4 * B ^ 3 * int (length pts) \<le> 2 ^ 51"
    using c by (simp add: N_def [symmetric] algebra_simps)
qed

lemma contour_sums_closed_path:
  fixes B :: int
  assumes bounds: "\<forall>p\<in>set pts. \<bar>fst p\<bar> \<le> B \<and> \<bar>snd p\<bar> \<le> B"
    and size: "16 * int (length pts) * B ^ 3 \<le> 2 ^ 53"
    and ne: "pts \<noteq> []"
  shows "contour_sums (last (map to_float32 pts)) (map to_float32 pts) (0, 0, 0) =
     (of_int (spec_area2 pts), of_int (spec_moment_x pts), of_int (spec_moment_y pts))"
proof -
  note sc = size_condition [OF assms]
  let ?f = "\<lambda>p :: point. (rat_of_int (fst p), rat_of_int (snd p))"
  have f: "to_float32 p = ?f p" if "p \<in> set pts" for p
  proof -
    from bounds that have "\<bar>fst p\<bar> \<le> B" "\<bar>snd p\<bar> \<le> B" by simp_all
    with sc(2) have "\<bar>fst p\<bar> \<le> 2 ^ 24" "\<bar>snd p\<bar> \<le> 2 ^ 24" by linarith+
    then show ?thesis by (rule to_float32_exact)
  qed
  then have m: "map to_float32 pts = map ?f pts" by simp
  have l: "last (map ?f pts) = (of_int (fst (last pts)), of_int (snd (last pts)))"
    using ne by (simp add: last_map)
  have b2: "\<forall>p\<in>set (last pts # pts). \<bar>fst p\<bar> \<le> B \<and> \<bar>snd p\<bar> \<le> B"
    using bounds ne by simp
  have z0: "\<bar>0 :: int\<bar> + 2 * B ^ 2 * int (length pts) \<le> 2 ^ 53" using sc(3) by simp
  have z1: "\<bar>0 :: int\<bar> + 4 * B ^ 3 * int (length pts) \<le> 2 ^ 53" using sc(4) by simp
  from contour_sums_exact [OF b2 sc(2) z0 z1 z1]
  show ?thesis
    unfolding m l
    by (simp add: sum_list_edges [OF ne] spec_area2_def spec_moment_x_def spec_moment_y_def)
qed

lemma cv2_moments_closed_path:
  fixes B :: int
  assumes bounds: "\<forall>p\<in>set pts. \<bar>fst p\<bar> \<le> B \<and> \<bar>snd p\<bar> \<le> B"
    and size: "16 * int (length pts) * B ^ 3 \<le> 2 ^ 53"
  shows "cv2_moments (map to_float32 pts) =
     (if spec_area2 pts = 0 then \<lparr> m00 = 0, m10 = 0, m01 = 0 \<rparr>
      else \<lparr> m00 = of_int \<bar>spec_area2 pts\<bar> / 2,
             m10 = fl64 (of_int (sgn (spec_area2 pts) * spec_moment_x pts) * db1_6),
             m01 = fl64 (of_int (sgn (spec_area2 pts) * spec_moment_y pts) * db1_6) \<rparr>)"
proof (cases "pts = []")
  case True
  then show ?thesis
    by (simp add: cv2_moments_def spec_area2_def closed_path_edges_def)
next
  case False
  note sc = size_condition [OF assms False]
  note cs = contour_sums_closed_path [OF assms False]
  have "\<bar>spec_area2 pts\<bar> \<le> 2 * B ^ 2 * int (length pts)"
    by (rule closed_path_sums_bounded(1) [OF bounds])
  with sc(3) have a: "\<bar>spec_area2 pts\<bar> \<le> 2 ^ 53" by linarith
  have h1: "fl64 (of_int (spec_area2 pts) / 2) = of_int (spec_area2 pts) / 2"
    by (rule fl64_half_of_int [OF a])
  have a': "\<bar>- spec_area2 pts\<bar> \<le> 2 ^ 53" using a by simp
  have h2: "fl64 (- (of_int (spec_area2 pts) / 2)) = - (of_int (spec_area2 pts) / 2)"
    using fl64_half_of_int [OF a'] by simp
  show ?thesis
  proof (cases "0 < spec_area2 pts")
    case True
    from True have "spec_area2 pts \<noteq> 0" by simp
    then have "FLT_EPSILON < \<bar>rat_of_int (spec_area2 pts)\<bar>"
      by (rule int_above_FLT_EPSILON [THEN iffD2])
    then have "FLT_EPSILON < rat_of_int (spec_area2 pts)" using True by simp
    then show ?thesis
      using False True
      by (simp add: cv2_moments_def cs Let_def h1 float_mul_def)
  next
    case neg: False
    have z: "spec_area2 pts \<noteq> 0 \<Longrightarrow> FLT_EPSILON < \<bar>rat_of_int (spec_area2 pts)\<bar>"
      by (rule int_above_FLT_EPSILON [THEN iffD2])
    have "spec_area2 pts \<noteq> 0 \<Longrightarrow> FLT_EPSILON < - rat_of_int (spec_area2 pts)"
      using z neg by simp
    moreover have "\<not> FLT_EPSILON < 0" by (simp add: FLT_EPSILON_def)
    ultimately show ?thesis
      using False neg
      by (simp add: cv2_moments_def cs Let_def h2 float_mul_def sgn_if)
  qed
qed

lemma calculate_centroid_nonzero:
  assumes "m00 (cv2_moments (map to_float32 points)) \<noteq> 0"
  shows "calculate_centroid points =
     Inr (py_int (fl64 (m10 (cv2_moments (map to_float32 points)) / m00 (cv2_moments (map to_float32 points)))),
          py_int (fl64 (m01 (cv2_moments (map to_float32 points)) / m00 (cv2_moments (map to_float32 points)))))"
  using assms by (simp add: calculate_centroid_def Let_def float_truediv_def)

lemma calculate_centroid_zero:
  assumes "m00 (cv2_moments (map to_float32 points)) = 0"
  shows "calculate_centroid points = Inr (0, 0)"
  using assms by (simp add: calculate_centroid_def Let_def)

lemma calculate_centroid_exact:
  fixes B :: int
  assumes bounds: "\<forall>p\<in>set pts. \<bar>fst p\<bar> \<le> B \<and> \<bar>snd p\<bar> \<le> B"
    and size: "16 * int (length pts) * B ^ 3 \<le> 2 ^ 53"
  shows "calculate_centroid pts =
     (if spec_area2 pts = 0 then Inr (0, 0)
      else Inr (py_int (of_int (spec_moment_x pts) / (3 * of_int (spec_area2 pts))),
                py_int (of_int (spec_moment_y pts) / (3 * of_int (spec_area2 pts)))))"
proof (cases "spec_area2 pts = 0")
  case True
  then show ?thesis
    by (simp add: calculate_centroid_def Let_def cv2_moments_closed_path [OF assms])
next
  case False
  then have ne: "pts \<noteq> []" by (auto simp: spec_area2_def closed_path_edges_def)
  note sc = size_condition [OF assms ne]
  define A where "A = \<bar>spec_area2 pts\<bar>"
  define sg where "sg = sgn (spec_area2 pts)"
  have A: "0 < A" using False by (simp add: A_def)
  have sg: "\<bar>sg\<bar> = 1" using False by (simp add: sg_def sgn_if)
  have a2: "spec_area2 pts = sg * A" by (simp add: sg_def A_def sgn_if)
  have "\<bar>spec_moment_x pts\<bar> \<le> 4 * B ^ 3 * int (length pts)"
       "\<bar>spec_moment_y pts\<bar> \<le> 4 * B ^ 3 * int (length pts)"
    by (rule closed_path_sums_bounded [OF bounds])+
  with sc(4) have "\<bar>spec_moment_x pts\<bar> \<le> 2 ^ 51" "\<bar>spec_moment_y pts\<bar> \<le> 2 ^ 51" by linarith+
  then have mx: "\<bar>sg * spec_moment_x pts\<bar> \<le> 2 ^ 51" and my: "\<bar>sg * spec_moment_y pts\<bar> \<le> 2 ^ 51"
    using sg by (simp_all add: abs_mult)
  have qx: "(of_int (sg * spec_moment_x pts) :: rat) / (3 * of_int A)
      = of_int (spec_moment_x pts) / (3 * of_int (spec_area2 pts))"
    using False by (simp add: sg_def A_def sgn_if)
  have qy: "(of_int (sg * spec_moment_y pts) :: rat) / (3 * of_int A)
      = of_int (spec_moment_y pts) / (3 * of_int (spec_area2 pts))"
    using False by (simp add: sg_def A_def sgn_if)
  note tx = centroid_quotient_truncated [OF A mx, unfolded qx]
  note ty = centroid_quotient_truncated [OF A my, unfolded qy]
  have m: "cv2_moments (map to_float32 pts) =
      \<lparr> m00 = of_int A / 2,
        m10 = fl64 (of_int (sg * spec_moment_x pts) * db1_6),
        m01 = fl64 (of_int (sg * spec_moment_y pts) * db1_6) \<rparr>"
    using False by (simp add: cv2_moments_closed_path [OF assms] A_def sg_def)
  have v0: "m00 (cv2_moments (map to_float32 pts)) = of_int A / 2"
    and v1: "m10 (cv2_moments (map to_float32 pts)) = fl64 (of_int (sg * spec_moment_x pts) * db1_6)"
    and v2: "m01 (cv2_moments (map to_float32 pts)) = fl64 (of_int (sg * spec_moment_y pts) * db1_6)"
    by (simp_all only: m moments.simps)
  have nz: "m00 (cv2_moments (map to_float32 pts)) \<noteq> 0" using A by (simp add: v0)
  have "calculate_centroid pts =
      Inr (py_int (of_int (spec_moment_x pts) / (3 * of_int (spec_area2 pts))),
           py_int (of_int (spec_moment_y pts) / (3 * of_int (spec_area2 pts))))"
    by (simp only: calculate_centroid_nonzero [OF nz] v0 v1 v2 tx ty)
  then show ?thesis using False by simp
qed

lemma fl32_16777221: "fl32 16777221 = 16777220"
proof -
  have b: "binexp 16777221 = 24" by (rule binexp_unique) simp_all
  have f: "\<lfloor>16777221 / 2 :: rat\<rfloor> = 8388610" by (simp add: floor_eq_iff)
  show ?thesis by (simp add: fl32_def round_to_def b round_half_even_def Let_def f)
qed

lemma moments_beyond_float32:
  "cv2_moments (map to_float32 [(0, 0), (16777221, 0), (0, 3)]) =
     \<lparr> m00 = 25165830, m10 = fl64 (844425332785200 * db1_6), m01 = fl64 (150994980 * db1_6) \<rparr>"
  by (simp add: cv2_moments_def to_float32_def fl32_16777221 FLT_EPSILON_def Let_def
      float_mul_def float_add_def float_sub_def)


lemma centroid_beyond_float32:
  "calculate_centroid [(0, 0), (16777221, 0), (0, 3)] = Inr (5592406, 1)"
proof -
  let ?pts = "[(0, 0), (16777221, 0), (0, 3)] :: point list"
  note m = moments_beyond_float32
  have v0: "m00 (cv2_moments (map to_float32 ?pts)) = of_int 50331660 / 2"
    and v1: "m10 (cv2_moments (map to_float32 ?pts)) = fl64 (of_int 844425332785200 * db1_6)"
    and v2: "m01 (cv2_moments (map to_float32 ?pts)) = fl64 (of_int 150994980 * db1_6)"
    unfolding m by simp_all
  have nz: "m00 (cv2_moments (map to_float32 ?pts)) \<noteq> 0" unfolding m by simp
  have tx: "py_int (fl64 (fl64 (of_int 844425332785200 * db1_6) / (of_int 50331660 / 2))) = 5592406"
    using centroid_quotient_truncated [of 50331660 844425332785200]
    by (simp add: py_int_def floor_eq_iff)
  have ty: "py_int (fl64 (fl64 (of_int 150994980 * db1_6) / (of_int 50331660 / 2))) = 1"
    using centroid_quotient_truncated [of 50331660 150994980]
    by (simp add: py_int_def)
  show ?thesis
    by (simp only: calculate_centroid_nonzero [OF nz] v0 v1 v2 tx ty)
qed

lemma centroid_small_examples:
  "calculate_centroid [(0, 0), (10, 0), (10, 10), (0, 10)] = Inr (5, 5)"
  "calculate_centroid [(0, 0), (5, 0), (0, 5)] = Inr (1, 1)"
  "calculate_centroid [(0, 0), (- 5, 0), (0, - 5)] = Inr (- 1, - 1)"
  "calculate_centroid [(0, 0), (5, 0), (10, 0)] = Inr (0, 0)"
proof -
  show "calculate_centroid [(0, 0), (10, 0), (10, 10), (0, 10)] = Inr (5, 5)"
    using calculate_centroid_exact [of "[(0, 0), (10, 0), (10, 10), (0, 10)]" 10]
    by (simp add: spec_area2_def spec_moment_x_def spec_moment_y_def closed_path_edges_def
        edge_cross_def py_int_def)
  show "calculate_centroid [(0, 0), (5, 0), (0, 5)] = Inr (1, 1)"
    using calculate_centroid_exact [of "[(0, 0), (5, 0), (0, 5)]" 5]
    by (simp add: spec_area2_def spec_moment_x_def spec_moment_y_def closed_path_edges_def
        edge_cross_def py_int_def floor_eq_iff)
  show "calculate_centroid [(0, 0), (- 5, 0), (0, - 5)] = Inr (- 1, - 1)"
    using calculate_centroid_exact [of "[(0, 0), (- 5, 0), (0, - 5)]" 5]
    by (simp add: spec_area2_def spec_moment_x_def spec_moment_y_def closed_path_edges_def
        edge_cross_def py_int_def ceiling_eq_iff)
  show "calculate_centroid [(0, 0), (5, 0), (10, 0)] = Inr (0, 0)"
    using calculate_centroid_exact [of "[(0, 0), (5, 0), (10, 0)]" 10]
    by (simp add: spec_area2_def spec_moment_x_def spec_moment_y_def closed_path_edges_def
        edge_cross_def py_int_def)
qed

lemma m00_nonzero_iff:
  fixes B :: int
  assumes "\<forall>p\<in>set pts. \<bar>fst p\<bar> \<le> B \<and> \<bar>snd p\<bar> \<le> B"
    and "16 * int (length pts) * B ^ 3 \<le> 2 ^ 53"
  shows "m00 (cv2_moments (map to_float32 pts)) \<noteq> 0 \<longleftrightarrow> spec_area2 pts \<noteq> 0"
  by (simp add: cv2_moments_closed_path [OF assms])

text \<open>
  Claim C1, amended. \<open>calculate_centroid\<close> returns the two quotients of the computed
  moments, \<open>m10 / m00\<close> and \<open>m01 / m00\<close>, each rounded to a double and then cut
  toward zero. When every coordinate is at most \<open>B\<close> in magnitude and
  \<open>16 * N * B ^ 3 \<le> 2 ^ 53\<close> for the \<open>N\<close> vertices, and \<open>m00\<close> is not zero, the
  result is the first-order area-moment centroid of the closed path with its
  fractional part dropped: it is no larger in size than the exact centroid coordinate,
  less than one away from it, and never of the opposite sign. The square gives (5, 5);
  a triangle with centroid 5/3 gives 1, not 2, and its mirror image gives -1, not -2.
\<close>

theorem centroid_truncated_toward_zero:
  "((\<forall>p\<in>set pts. \<bar>fst p\<bar> \<le> B \<and> \<bar>snd p\<bar> \<le> B) \<and> 16 * int (length pts) * B ^ 3 \<le> 2 ^ 53
      \<and> m00 (cv2_moments (map to_float32 pts)) \<noteq> 0 \<longrightarrow>
      spec_area2 pts \<noteq> 0
      \<and> (\<exists>cx cy qx qy.
          qx = of_int (spec_moment_x pts) / (3 * of_int (spec_area2 pts))
        \<and> qy = of_int (spec_moment_y pts) / (3 * of_int (spec_area2 pts))
        \<and> calculate_centroid pts = Inr (cx, cy)
        \<and> cx = py_int qx \<and> cy = py_int qy
        \<and> \<bar>of_int cx\<bar> \<le> \<bar>qx\<bar> \<and> \<bar>qx\<bar> < \<bar>of_int cx\<bar> + 1 \<and> 0 \<le> of_int cx * qx
        \<and> \<bar>of_int cy\<bar> \<le> \<bar>qy\<bar> \<and> \<bar>qy\<bar> < \<bar>of_int cy\<bar> + 1 \<and> 0 \<le> of_int cy * qy))
   \<and> (m00 (cv2_moments (map to_float32 pts)) \<noteq> 0 \<longrightarrow>
        calculate_centroid pts =
          Inr (py_int (fl64 (m10 (cv2_moments (map to_float32 pts)) / m00 (cv2_moments (map to_float32 pts)))),
               py_int (fl64 (m01 (cv2_moments (map to_float32 pts)) / m00 (cv2_moments (map to_float32 pts))))))
   \<and> calculate_centroid [(0, 0), (10, 0), (10, 10), (0, 10)] = Inr (5, 5)
   \<and> calculate_centroid [(0, 0), (5, 0), (0, 5)] = Inr (1, 1)
   \<and> calculate_centroid [(0, 0), (- 5, 0), (0, - 5)] = Inr (- 1, - 1)"
proof (intro conjI impI)
  assume a: "(\<forall>p\<in>set pts. \<bar>fst p\<bar> \<le> B \<and> \<bar>snd p\<bar> \<le> B) \<and> 16 * int (length pts) * B ^ 3 \<le> 2 ^ 53
      \<and> m00 (cv2_moments (map to_float32 pts)) \<noteq> 0"
  then have bounds: "\<forall>p\<in>set pts. \<bar>fst p\<bar> \<le> B \<and> \<bar>snd p\<bar> \<le> B"
    and size: "16 * int (length pts) * B ^ 3 \<le> 2 ^ 53"
    and nz: "m00 (cv2_moments (map to_float32 pts)) \<noteq> 0" by blast+
  show area: "spec_area2 pts \<noteq> 0" using nz m00_nonzero_iff [OF bounds size] by simp
  let ?qx = "rat_of_int (spec_moment_x pts) / (3 * of_int (spec_area2 pts))"
  let ?qy = "rat_of_int (spec_moment_y pts) / (3 * of_int (spec_area2 pts))"
  have "calculate_centroid pts = Inr (py_int ?qx, py_int ?qy)"
    using calculate_centroid_exact [OF bounds size] area by simp
  then show "\<exists>cx cy qx qy.
          qx = ?qx \<and> qy = ?qy
        \<and> calculate_centroid pts = Inr (cx, cy)
        \<and> cx = py_int qx \<and> cy = py_int qy
        \<and> \<bar>of_int cx\<bar> \<le> \<bar>qx\<bar> \<and> \<bar>qx\<bar> < \<bar>of_int cx\<bar> + 1 \<and> 0 \<le> of_int cx * qx
        \<and> \<bar>of_int cy\<bar> \<le> \<bar>qy\<bar> \<and> \<bar>qy\<bar> < \<bar>of_int cy\<bar> + 1 \<and> 0 \<le> of_int cy * qy"
    using py_int_bounds [of ?qx] py_int_bounds [of ?qy]
    by (intro exI [of _ "py_int ?qx"] exI [of _ "py_int ?qy"] exI [of _ ?qx] exI [of _ ?qy]) simp
next
  assume "m00 (cv2_moments (map to_float32 pts)) \<noteq> 0"
  then show "calculate_centroid pts =
          Inr (py_int (fl64 (m10 (cv2_moments (map to_float32 pts)) / m00 (cv2_moments (map to_float32 pts)))),
               py_int (fl64 (m01 (cv2_moments (map to_float32 pts)) / m00 (cv2_moments (map to_float32 pts)))))"
    by (rule calculate_centroid_nonzero)
qed (rule centroid_small_examples)+

text \<open>The square, with coordinates up to 10, has a non-zero \<open>m00\<close>.\<close>

theorem centroid_truncated_toward_zero_witness:
  "list_all (\<lambda>p. \<bar>fst p\<bar> \<le> 10 \<and> \<bar>snd p\<bar> \<le> 10) ([(0, 0), (10, 0), (10, 10), (0, 10)] :: point list)
   \<and> 16 * int (length ([(0, 0), (10, 0), (10, 10), (0, 10)] :: point list)) * 10 ^ 3 \<le> 2 ^ 53
   \<and> m00 (cv2_moments (map to_float32 [(0, 0), (10, 0), (10, 10), (0, 10)])) \<noteq> 0
   \<and> spec_area2 [(0, 0), (10, 0), (10, 10), (0, 10)] \<noteq> 0
   \<and> (\<exists>cx cy qx qy.
          qx = of_int (spec_moment_x [(0, 0), (10, 0), (10, 10), (0, 10)])
                 / (3 * of_int (spec_area2 [(0, 0), (10, 0), (10, 10), (0, 10)]))
        \<and> qy = of_int (spec_moment_y [(0, 0), (10, 0), (10, 10), (0, 10)])
                 / (3 * of_int (spec_area2 [(0, 0), (10, 0), (10, 10), (0, 10)]))
        \<and> calculate_centroid [(0, 0), (10, 0), (10, 10), (0, 10)] = Inr (cx, cy)
        \<and> cx = py_int qx \<and> cy = py_int qy
        \<and> \<bar>of_int cx\<bar> \<le> \<bar>qx\<bar> \<and> \<bar>qx\<bar> < \<bar>of_int cx\<bar> + 1 \<and> 0 \<le> of_int cx * qx
        \<and> \<bar>of_int cy\<bar> \<le> \<bar>qy\<bar> \<and> \<bar>qy\<bar> < \<bar>of_int cy\<bar> + 1 \<and> 0 \<le> of_int cy * qy)"
proof -
  let ?sq = "[(0, 0), (10, 0), (10, 10), (0, 10)] :: point list"
  have b: "\<forall>p\<in>set ?sq. \<bar>fst p\<bar> \<le> (10 :: int) \<and> \<bar>snd p\<bar> \<le> 10" by simp
  have s: "16 * int (length ?sq) * 10 ^ 3 \<le> (2 :: int) ^ 53" by simp
  have a: "spec_area2 ?sq \<noteq> 0"
    by (simp add: spec_area2_def closed_path_edges_def edge_cross_def)
  have nz: "m00 (cv2_moments (map to_float32 ?sq)) \<noteq> 0"
    using a m00_nonzero_iff [OF b s] by blast
  have hyp: "(\<forall>p\<in>set ?sq. \<bar>fst p\<bar> \<le> (10 :: int) \<and> \<bar>snd p\<bar> \<le> 10)
      \<and> 16 * int (length ?sq) * 10 ^ 3 \<le> (2 :: int) ^ 53
      \<and> m00 (cv2_moments (map to_float32 ?sq)) \<noteq> 0"
    using b s nz by (intro conjI)
  from centroid_truncated_toward_zero [of ?sq 10, THEN conjunct1] hyp
  have c: "spec_area2 ?sq \<noteq> 0
   \<and> (\<exists>cx cy qx qy.
          qx = of_int (spec_moment_x ?sq) / (3 * of_int (spec_area2 ?sq))
        \<and> qy = of_int (spec_moment_y ?sq) / (3 * of_int (spec_area2 ?sq))
        \<and> calculate_centroid ?sq = Inr (cx, cy)
        \<and> cx = py_int qx \<and> cy = py_int qy
        \<and> \<bar>of_int cx\<bar> \<le> \<bar>qx\<bar> \<and> \<bar>qx\<bar> < \<bar>of_int cx\<bar> + 1 \<and> 0 \<le> of_int cx * qx
        \<and> \<bar>of_int cy\<bar> \<le> \<bar>qy\<bar> \<and> \<bar>qy\<bar> < \<bar>of_int cy\<bar> + 1 \<and> 0 \<le> of_int cy * qy)"
    by (rule mp)
  have b': "list_all (\<lambda>p. \<bar>fst p\<bar> \<le> 10 \<and> \<bar>snd p\<bar> \<le> 10) ?sq" by simp
  show ?thesis
    apply (intro conjI)
        apply (rule b')
       apply (rule s)
      apply (rule nz)
     apply (rule c [THEN conjunct1])
    apply (rule c [THEN conjunct2])
    done
qed

text \<open>
  Claim C1 as stated, for every vertex sequence, fails beyond the range of
  \<open>float32\<close>. The vertex 16777221 becomes 16777220 in the \<open>float32\<close> array, so
  the triangle (0, 0), (16777221, 0), (0, 3), whose centroid is (5592407, 1) exactly,
  gets (5592406, 1).
\<close>

theorem centroid_beyond_float32_counterexample:
  "calculate_centroid [(0, 0), (16777221, 0), (0, 3)] = Inr (5592406, 1)
   \<and> m00 (cv2_moments (map to_float32 [(0, 0), (16777221, 0), (0, 3)])) \<noteq> 0
   \<and> spec_area2 [(0, 0), (16777221, 0), (0, 3)] \<noteq> 0
   \<and> py_int (of_int (spec_moment_x [(0, 0), (16777221, 0), (0, 3)])
             / (3 * of_int (spec_area2 [(0, 0), (16777221, 0), (0, 3)]))) = 5592407
   \<and> py_int (of_int (spec_moment_y [(0, 0), (16777221, 0), (0, 3)])
             / (3 * of_int (spec_area2 [(0, 0), (16777221, 0), (0, 3)]))) = 1"
proof (intro conjI)
  show "calculate_centroid [(0, 0), (16777221, 0), (0, 3)] = Inr (5592406, 1)"
    by (rule centroid_beyond_float32)
  show "m00 (cv2_moments (map to_float32 [(0, 0), (16777221, 0), (0, 3)])) \<noteq> 0"
    unfolding moments_beyond_float32 by simp
qed (simp_all add: spec_area2_def spec_moment_x_def spec_moment_y_def closed_path_edges_def
      edge_cross_def py_int_def)

text \<open>
  Beyond the range of \<open>float32\<close> the computed \<open>m00\<close> is not the area: the vertices
  (0, 0), (3, 1), (50331651, 16777217) lie on one line, and the \<open>float32\<close> array holds
  (50331652, 16777216) for the last one, which is off the line.
\<close>

lemma fl32_16777217: "fl32 16777217 = 16777216"
proof -
  have b: "binexp 16777217 = 24" by (rule binexp_unique) simp_all
  have f: "\<lfloor>16777217 / 2 :: rat\<rfloor> = 8388608" by (simp add: floor_eq_iff)
  show ?thesis by (simp add: fl32_def round_to_def b round_half_even_def Let_def f)
qed

lemma fl32_50331651: "fl32 50331651 = 50331652"
proof -
  have b: "binexp 50331651 = 25" by (rule binexp_unique) simp_all
  have f: "\<lfloor>50331651 / 4 :: rat\<rfloor> = 12582912" by (simp add: floor_eq_iff)
  show ?thesis by (simp add: fl32_def round_to_def b round_half_even_def Let_def f)
qed

lemma zero_area_beyond_float32:
  "spec_area2 [(0, 0), (3, 1), (50331651, 16777217)] = 0"
  "m00 (cv2_moments (map to_float32 [(0, 0), (3, 1), (50331651, 16777217)])) = 2"
  by (simp_all add: spec_area2_def closed_path_edges_def edge_cross_def
      cv2_moments_def to_float32_def fl32_16777217 fl32_50331651 FLT_EPSILON_def Let_def
      float_mul_def float_add_def float_sub_def)

text \<open>
  Claim C2. When the computed moment \<open>m00\<close> is zero, \<open>calculate_centroid\<close> returns
  (0, 0). It raises for no vertex list at all. When every coordinate is at most \<open>B\<close>
  in magnitude and \<open>16 * N * B ^ 3 \<le> 2 ^ 53\<close> for the \<open>N\<close> vertices, a closed path
  of zero signed area has \<open>m00 = 0\<close>. The three collinear vertices have \<open>m00 = 0\<close>
  and give (0, 0).
\<close>

theorem zero_area_gives_origin:
  "(m00 (cv2_moments (map to_float32 pts)) = 0 \<longrightarrow> calculate_centroid pts = Inr (0, 0))
   \<and> ((\<forall>p\<in>set pts. \<bar>fst p\<bar> \<le> B \<and> \<bar>snd p\<bar> \<le> B) \<and> 16 * int (length pts) * B ^ 3 \<le> 2 ^ 53
        \<and> spec_area2 pts = 0 \<longrightarrow> m00 (cv2_moments (map to_float32 pts)) = 0)
   \<and> (\<exists>c. calculate_centroid pts = Inr c)
   \<and> m00 (cv2_moments (map to_float32 [(0, 0), (5, 0), (10, 0)])) = 0
   \<and> calculate_centroid [(0, 0), (5, 0), (10, 0)] = Inr (0, 0)"
proof (intro conjI impI)
  assume "(\<forall>p\<in>set pts. \<bar>fst p\<bar> \<le> B \<and> \<bar>snd p\<bar> \<le> B) \<and> 16 * int (length pts) * B ^ 3 \<le> 2 ^ 53
        \<and> spec_area2 pts = 0"
  then have b: "\<forall>p\<in>set pts. \<bar>fst p\<bar> \<le> B \<and> \<bar>snd p\<bar> \<le> B"
    and s: "16 * int (length pts) * B ^ 3 \<le> 2 ^ 53" and a: "spec_area2 pts = 0" by blast+
  show "m00 (cv2_moments (map to_float32 pts)) = 0"
    using m00_nonzero_iff [OF b s] a by simp
next
  have b: "\<forall>p\<in>set ([(0, 0), (5, 0), (10, 0)] :: point list). \<bar>fst p\<bar> \<le> 10 \<and> \<bar>snd p\<bar> \<le> 10"
    by simp
  have s: "16 * int (length ([(0, 0), (5, 0), (10, 0)] :: point list)) * 10 ^ 3 \<le> 2 ^ 53" by simp
  have "spec_area2 [(0, 0), (5, 0), (10, 0)] = 0"
    by (simp add: spec_area2_def closed_path_edges_def edge_cross_def)
  then show "m00 (cv2_moments (map to_float32 [(0, 0), (5, 0), (10, 0)])) = 0"
    using m00_nonzero_iff [OF b s] by blast
next
  show "\<exists>c. calculate_centroid pts = Inr c"
    by (rule calculate_centroid_total)
next
  assume "m00 (cv2_moments (map to_float32 pts)) = 0"
  then show "calculate_centroid pts = Inr (0, 0)" by (rule calculate_centroid_zero)
next
  show "calculate_centroid [(0, 0), (5, 0), (10, 0)] = Inr (0, 0)"
    by (rule centroid_small_examples)
qed

text \<open>The collinear vertices have zero area and zero \<open>m00\<close>.\<close>

theorem zero_area_gives_origin_witness:
  "m00 (cv2_moments (map to_float32 [(0, 0), (5, 0), (10, 0)])) = 0
   \<and> list_all (\<lambda>p. \<bar>fst p\<bar> \<le> 10 \<and> \<bar>snd p\<bar> \<le> 10) ([(0, 0), (5, 0), (10, 0)] :: point list)
   \<and> 16 * int (length ([(0, 0), (5, 0), (10, 0)] :: point list)) * 10 ^ 3 \<le> 2 ^ 53
   \<and> spec_area2 [(0, 0), (5, 0), (10, 0)] = 0
   \<and> calculate_centroid [(0, 0), (5, 0), (10, 0)] = Inr (0, 0)"
proof -
  let ?c = "[(0, 0), (5, 0), (10, 0)] :: point list"
  note t = zero_area_gives_origin [of ?c 10]
  have b: "\<forall>p\<in>set ?c. \<bar>fst p\<bar> \<le> 10 \<and> \<bar>snd p\<bar> \<le> 10" by simp
  have s: "16 * int (length ?c) * 10 ^ 3 \<le> 2 ^ 53" by simp
  have a: "spec_area2 ?c = 0"
    by (simp add: spec_area2_def closed_path_edges_def edge_cross_def)
  have hyp: "(\<forall>p\<in>set ?c. \<bar>fst p\<bar> \<le> 10 \<and> \<bar>snd p\<bar> \<le> 10) \<and> 16 * int (length ?c) * 10 ^ 3 \<le> 2 ^ 53
      \<and> spec_area2 ?c = 0"
    using b s a by (intro conjI)
  from t [THEN conjunct2, THEN conjunct1] hyp
  have z: "m00 (cv2_moments (map to_float32 ?c)) = 0" by (rule mp)
  from t [THEN conjunct1] z have c: "calculate_centroid ?c = Inr (0, 0)" by (rule mp)
  have b': "list_all (\<lambda>p. \<bar>fst p\<bar> \<le> 10 \<and> \<bar>snd p\<bar> \<le> 10) ?c" by simp
  show ?thesis
    apply (intro conjI)
        apply (rule z)
       apply (rule b')
      apply (rule s)
     apply (rule a)
    apply (rule c)
    done
qed

section \<open>The annotation store\<close>

lemma record_centroid_present:
  "k \<in> set (map fst anns) \<Longrightarrow>
     record_centroid k c anns = map (\<lambda>(k', cs). if k' = k then (k', cs @ [c]) else (k', cs)) anns"
  by (simp add: record_centroid_def)

lemma map_other_keys:
  "k \<notin> set (map fst anns) \<Longrightarrow>
     map (\<lambda>(k', cs). if k' = k then (k', cs @ [c]) else (k', cs)) anns = anns"
  by (induction anns) auto

lemma record_centroid_absent:
  "k \<notin> set (map fst anns) \<Longrightarrow> record_centroid k c anns = anns @ [(k, [c])]"
  by (simp add: record_centroid_def map_other_keys)

lemma record_centroid_keys:
  "map fst (record_centroid k c anns) =
     (if k \<in> set (map fst anns) then map fst anns else map fst anns @ [k])"
proof -
  have "map fst (map (\<lambda>(k', cs). if k' = k then (k', cs @ [c]) else (k', cs)) xs) = map fst xs" for xs
    by (induction xs) auto
  then show ?thesis
    by (simp add: record_centroid_def Let_def)
qed

lemma record_centroid_distinct:
  "distinct (map fst anns) \<Longrightarrow> distinct (map fst (record_centroid k c anns))"
  by (simp add: record_centroid_keys)

lemma map_of_updated:
  "map_of (map (\<lambda>(k', cs). if k' = k then (k', cs @ [c]) else (k', cs)) anns) k'' =
     (if k'' = k then map_option (\<lambda>cs. cs @ [c]) (map_of anns k) else map_of anns k'')"
  by (induction anns) auto

lemma record_centroid_lookup:
  "map_of (record_centroid k c anns) k =
     Some ((case map_of anns k of None \<Rightarrow> [] | Some cs \<Rightarrow> cs) @ [c])"
proof (cases "k \<in> set (map fst anns)")
  case True
  then obtain cs where "map_of anns k = Some cs"
    by (metis map_of_eq_None_iff not_Some_eq set_map)
  with True show ?thesis
    by (simp add: record_centroid_present map_of_updated)
next
  case False
  then have "map_of anns k = None" by (simp add: map_of_eq_None_iff)
  with False show ?thesis
    by (simp add: record_centroid_absent map_add_def)
qed

lemma record_centroid_lookup_other:
  "k' \<noteq> k \<Longrightarrow> map_of (record_centroid k c anns) k' = map_of anns k'"
  by (cases "k \<in> set (map fst anns)")
     (simp_all add: record_centroid_present record_centroid_absent map_of_updated map_add_def
        split: option.split)

lemma record_centroid_twice:
  "k \<notin> set (map fst anns) \<Longrightarrow>
     record_centroid k c2 (record_centroid k c1 anns) = anns @ [(k, [c1, c2])]"
  by (simp add: record_centroid_absent record_centroid_present map_other_keys)

lemma marked_as_card:
  fixes anns :: "(string \<times> point list) list"
  assumes "distinct (map fst anns)"
  shows "length (filter (\<lambda>(f, centroids). 0 < length centroids) anns) =
         card {k. \<exists>cs. map_of anns k = Some cs \<and> cs \<noteq> []}"
proof -
  let ?nonempty = "\<lambda>(f :: string, centroids :: point list). 0 < length centroids"
  have d: "distinct (map fst (filter ?nonempty anns))"
    using assms by (simp add: distinct_map_filter)
  have "fst ` set (filter ?nonempty anns) = {k. \<exists>cs. map_of anns k = Some cs \<and> cs \<noteq> []}"
    using assms by (force simp: image_iff)
  then have "card {k. \<exists>cs. map_of anns k = Some cs \<and> cs \<noteq> []} =
             card (set (map fst (filter ?nonempty anns)))" by simp
  also have "\<dots> = length (map fst (filter ?nonempty anns))"
    using d by (rule distinct_card)
  finally show ?thesis by simp
qed

lemma marked_after_first_record:
  "k \<notin> set (map fst anns) \<Longrightarrow>
     length (filter (\<lambda>(f, centroids). 0 < length centroids) (record_centroid k c anns)) =
     length (filter (\<lambda>(f, centroids). 0 < length centroids) anns) + 1"
  by (simp add: record_centroid_absent)

lemma marked_after_second_record:
  "k \<notin> set (map fst anns) \<Longrightarrow>
     length (filter (\<lambda>(f, centroids). 0 < length centroids)
        (record_centroid k c2 (record_centroid k c1 anns))) =
     length (filter (\<lambda>(f, centroids). 0 < length centroids) anns) + 1"
  by (simp add: record_centroid_twice)

text \<open>
  Claim C8. Recording a centroid under a key appends it to the list of that key (the
  empty list when the key is new), leaves every other key as it was, creates an entry
  only when the key is absent and keeps the keys distinct; nothing is deduplicated,
  two centroids recorded under a new key give one entry holding both in that order.
  The marked count shown is the number of keys with a non-empty list, so it grows by
  one for that entry. \<open>finish_polygon\<close> records this way and shows this count.
\<close>

theorem record_appends_and_marked_counts_keys:
  "distinct (map fst anns) \<Longrightarrow>
     map_of (record_centroid k c anns) k
       = Some ((case map_of anns k of None \<Rightarrow> [] | Some cs \<Rightarrow> cs) @ [c])
   \<and> (\<forall>k'. k' \<noteq> k \<longrightarrow> map_of (record_centroid k c anns) k' = map_of anns k')
   \<and> map fst (record_centroid k c anns)
       = (if k \<in> set (map fst anns) then map fst anns else map fst anns @ [k])
   \<and> distinct (map fst (record_centroid k c anns))
   \<and> (k \<notin> set (map fst anns) \<longrightarrow>
         record_centroid k c2 (record_centroid k c anns) = anns @ [(k, [c, c2])]
       \<and> fst (marked_label (update_marked_count
               (s\<lparr> annotations := record_centroid k c2 (record_centroid k c anns) \<rparr>)))
           = fst (marked_label (update_marked_count (s\<lparr> annotations := anns \<rparr>))) + 1)
   \<and> fst (marked_label (update_marked_count (s\<lparr> annotations := anns \<rparr>)))
       = card {k'. \<exists>cs. map_of anns k' = Some cs \<and> cs \<noteq> []}
   \<and> (3 \<le> length (current_polygon s) \<and> 0 \<le> current_index s
        \<and> current_index s < int (length (image_paths s)) \<and> image_ok s \<longrightarrow>
         (\<exists>c'. calculate_centroid (current_polygon s) = Inr c'
            \<and> annotations (snd (finish_polygon s))
                = record_centroid (basename (image_paths s ! nat (current_index s))) c' (annotations s)
            \<and> fst (marked_label (snd (finish_polygon s)))
                = length (filter (\<lambda>(f, centroids). 0 < length centroids)
                    (annotations (snd (finish_polygon s))))))"
proof (intro conjI impI allI)
  assume d: "distinct (map fst anns)"
  show "fst (marked_label (update_marked_count (s\<lparr> annotations := anns \<rparr>)))
       = card {k'. \<exists>cs. map_of anns k' = Some cs \<and> cs \<noteq> []}"
    using marked_as_card [OF d] by (simp add: update_marked_count_def)
next
  assume a: "3 \<le> length (current_polygon s) \<and> 0 \<le> current_index s
        \<and> current_index s < int (length (image_paths s)) \<and> image_ok s"
  obtain c' where c': "calculate_centroid (current_polygon s) = Inr c'"
    using calculate_centroid_total by blast
  from a have n: "3 \<le> length (current_polygon s)"
    and i: "0 \<le> current_index s" "current_index s < int (length (image_paths s))"
    and ok: "image_ok s" by simp_all
  note fin = finish_polygon_enough [OF n i c' ok]
  show "\<exists>c'. calculate_centroid (current_polygon s) = Inr c'
            \<and> annotations (snd (finish_polygon s))
                = record_centroid (basename (image_paths s ! nat (current_index s))) c' (annotations s)
            \<and> fst (marked_label (snd (finish_polygon s)))
                = length (filter (\<lambda>(f, centroids). 0 < length centroids)
                    (annotations (snd (finish_polygon s))))"
    using c' fin(4) fin(7) by (intro exI [of _ c']) simp
qed (simp_all add: record_centroid_lookup record_centroid_lookup_other record_centroid_keys
       record_centroid_twice update_marked_count_def)

text \<open>Two centroids recorded for a.png in an empty store.\<close>

theorem record_appends_and_marked_counts_keys_witness:
  "distinct (map fst ([] :: (string \<times> point list) list))
   \<and> ''a.png'' \<notin> set (map fst ([] :: (string \<times> point list) list))
   \<and> ''b.png'' \<noteq> ''a.png''
   \<and> 3 \<le> length (current_polygon ((init_tool 800 600)
          \<lparr> image_paths := [''dir/a.png''], current_polygon := [(0, 0), (10, 0), (0, 10)] \<rparr>))
   \<and> 0 \<le> current_index ((init_tool 800 600)
          \<lparr> image_paths := [''dir/a.png''], current_polygon := [(0, 0), (10, 0), (0, 10)] \<rparr>)
   \<and> current_index ((init_tool 800 600)
          \<lparr> image_paths := [''dir/a.png''], current_polygon := [(0, 0), (10, 0), (0, 10)] \<rparr>)
        < int (length (image_paths ((init_tool 800 600)
          \<lparr> image_paths := [''dir/a.png''], current_polygon := [(0, 0), (10, 0), (0, 10)] \<rparr>)))
   \<and> image_ok ((init_tool 800 600)
          \<lparr> image_paths := [''dir/a.png''], current_polygon := [(0, 0), (10, 0), (0, 10)] \<rparr>)
   \<and> record_centroid ''a.png'' (3, 4) (record_centroid ''a.png'' (1, 2) [])
        = [(''a.png'', [(1, 2), (3, 4)])]
   \<and> map_of (record_centroid ''a.png'' (1, 2) []) ''b.png'' = None
   \<and> fst (marked_label (update_marked_count ((init_tool 800 600)
          \<lparr> image_paths := [''dir/a.png''], current_polygon := [(0, 0), (10, 0), (0, 10)],
            annotations := record_centroid ''a.png'' (3, 4) (record_centroid ''a.png'' (1, 2) []) \<rparr>))) = 1"
  using record_appends_and_marked_counts_keys
    [of "[]" "''a.png''" "(1, 2)" "(3, 4)"
        "(init_tool 800 600)\<lparr> image_paths := [''dir/a.png''], current_polygon := [(0, 0), (10, 0), (0, 10)] \<rparr>"]
  by (simp add: init_tool_def image_ok_def update_marked_count_def)

section \<open>The export\<close>

lemma write_centroids_appends:
  "write_centroids filename cs f = f @ map (\<lambda>(cx, cy). [Str filename, Num cx, Num cy]) cs"
  by (induction cs arbitrary: f) auto

lemma write_annotations_appends:
  "write_annotations anns f = f @ spec_export_rows anns"
proof (induction anns arbitrary: f)
  case Nil
  then show ?case by (simp add: spec_export_rows_def)
next
  case (Cons entry anns)
  then show ?case
    by (cases entry) (simp add: spec_export_rows_def write_centroids_appends)
qed

lemma length_spec_export_rows:
  "length (spec_export_rows anns) = sum_list (map (\<lambda>(key, centroids). length centroids) anns)"
  by (induction anns) (auto simp: spec_export_rows_def)

text \<open>
  Claim C6, amended. For a store with at least one entry and a chosen file that can be
  written, \<open>save_centroids\<close> writes the header row and then one row of file name and
  two integers per recorded centroid, the entries in the order of the dictionary and
  the centroids of an entry in the order of its list, and changes nothing but the
  effect log. The dictionary keeps its entries in creation order: a recorded key that
  is new goes to the end, a known key stays where it is. For the empty store nothing
  is written, only a warning is shown. The store of the example gives the three rows
  of the example after the header.
\<close>

theorem export_rows_in_order:
  "(annotations s \<noteq> [] \<and> save_path \<noteq> [] \<longrightarrow>
       save_centroids save_path True s
         = s\<lparr> effects := effects s @
               [FileWrite save_path (header_row # spec_export_rows (annotations s)),
                Information (SavedTo save_path)] \<rparr>)
   \<and> (annotations s = [] \<longrightarrow>
       save_centroids save_path writable s = s\<lparr> effects := effects s @ [Warning NothingToSave] \<rparr>)
   \<and> length (spec_export_rows (annotations s))
       = sum_list (map (\<lambda>(key, centroids). length centroids) (annotations s))
   \<and> map fst (record_centroid k c (annotations s))
       = (if k \<in> set (map fst (annotations s)) then map fst (annotations s)
          else map fst (annotations s) @ [k])
   \<and> header_row = [Str ''filename'', Str ''centroid_x'', Str ''centroid_y'']
   \<and> write_annotations [(''a.png'', [(1, 2)]), (''b.png'', [(3, 4), (5, 6)])] [header_row]
       = [header_row,
          [Str ''a.png'', Num 1, Num 2],
          [Str ''b.png'', Num 3, Num 4],
          [Str ''b.png'', Num 5, Num 6]]"
proof (intro conjI impI)
  show "write_annotations [(''a.png'', [(1, 2)]), (''b.png'', [(3, 4), (5, 6)])] [header_row]
       = [header_row,
          [Str ''a.png'', Num 1, Num 2],
          [Str ''b.png'', Num 3, Num 4],
          [Str ''b.png'', Num 5, Num 6]]"
    by simp
  show "length (spec_export_rows (annotations s))
       = sum_list (map (\<lambda>(key, centroids). length centroids) (annotations s))"
    by (rule length_spec_export_rows)
  show "map fst (record_centroid k c (annotations s))
       = (if k \<in> set (map fst (annotations s)) then map fst (annotations s)
          else map fst (annotations s) @ [k])"
    by (rule record_centroid_keys)
  show "header_row = [Str ''filename'', Str ''centroid_x'', Str ''centroid_y'']"
    by (rule header_row_def)
next
  assume "annotations s \<noteq> [] \<and> save_path \<noteq> []"
  then show "save_centroids save_path True s
         = s\<lparr> effects := effects s @
               [FileWrite save_path (header_row # spec_export_rows (annotations s)),
                Information (SavedTo save_path)] \<rparr>"
    by (simp add: save_centroids_def write_annotations_appends)
next
  assume "annotations s = []"
  then show "save_centroids save_path writable s = s\<lparr> effects := effects s @ [Warning NothingToSave] \<rparr>"
    by (simp add: save_centroids_def)
qed

text \<open>The store of the example, saved to out.csv.\<close>

theorem export_rows_in_order_witness:
  "annotations ((init_tool 800 600)\<lparr> annotations := [(''a.png'', [(1, 2)]), (''b.png'', [(3, 4), (5, 6)])] \<rparr>) \<noteq> []
   \<and> ''out.csv'' \<noteq> []
   \<and> effects (save_centroids ''out.csv'' True
        ((init_tool 800 600)\<lparr> annotations := [(''a.png'', [(1, 2)]), (''b.png'', [(3, 4), (5, 6)])] \<rparr>))
      = [FileWrite ''out.csv''
           [[Str ''filename'', Str ''centroid_x'', Str ''centroid_y''],
            [Str ''a.png'', Num 1, Num 2],
            [Str ''b.png'', Num 3, Num 4],
            [Str ''b.png'', Num 5, Num 6]],
         Information (SavedTo ''out.csv'')]"
proof -
  let ?S = "(init_tool 800 600)\<lparr> annotations := [(''a.png'', [(1, 2)]), (''b.png'', [(3, 4), (5, 6)])] \<rparr>"
  have h: "annotations ?S \<noteq> [] \<and> ''out.csv'' \<noteq> []" by simp
  with export_rows_in_order [of ?S "''out.csv''"]
  have "save_centroids ''out.csv'' True ?S
         = ?S\<lparr> effects := effects ?S @
               [FileWrite ''out.csv'' (header_row # spec_export_rows (annotations ?S)),
                Information (SavedTo ''out.csv'')] \<rparr>"
    by blast
  then have "effects (save_centroids ''out.csv'' True ?S)
         = effects ?S @
               [FileWrite ''out.csv'' (header_row # spec_export_rows (annotations ?S)),
                Information (SavedTo ''out.csv'')]"
    by simp
  moreover have "effects ?S = []" by (simp add: init_tool_def)
  moreover have "spec_export_rows (annotations ?S) =
      [[Str ''a.png'', Num 1, Num 2], [Str ''b.png'', Num 3, Num 4], [Str ''b.png'', Num 5, Num 6]]"
    by (simp add: spec_export_rows_def)
  ultimately show ?thesis using h by (simp add: header_row_def)
qed

text \<open>
  Claim C6 as stated fails for the empty store: no file is written, so no header row
  either.
\<close>

theorem export_of_empty_store_counterexample:
  "annotations (init_tool 800 600) = []
   \<and> effects (save_centroids ''out.csv'' True (init_tool 800 600)) = [Warning NothingToSave]
   \<and> FileWrite ''out.csv'' [header_row] \<notin> set (effects (save_centroids ''out.csv'' True (init_tool 800 600)))"
  by (simp add: save_centroids_def init_tool_def)


section \<open>Clicks and the rendered rectangle\<close>

lemma display_to_original_rejects:
  assumes "0 < w r" and "0 < h r"
    and "xp r \<noteq> float_add (xp r) (w r)" and "yp r \<noteq> float_add (yp r) (h r)"
  shows "display_to_original r ow oh p = Inr None \<longleftrightarrow>
           (fst p < xp r \<or> float_add (xp r) (w r) < fst p
            \<or> snd p < yp r \<or> float_add (yp r) (h r) < snd p)"
  using assms
  by (auto simp: display_to_original_def qrectf_contains_def float_truediv_def Let_def)

lemma display_to_original_nonneg:
  assumes "0 < w r" and "0 < h r" and "0 \<le> ow" and "0 \<le> oh"
    and "display_to_original r ow oh p = Inr (Some (X, Y))"
  shows "0 \<le> X \<and> 0 \<le> Y"
proof -
  from assms have inside: "xp r \<le> fst p" "yp r \<le> snd p"
    by (auto simp: display_to_original_def qrectf_contains_def float_truediv_def Let_def split: if_splits)
  from assms have X: "X = py_int (float_mul (fl64 (float_sub (fst p) (xp r) / w r)) (py_float ow))"
    and Y: "Y = py_int (float_mul (fl64 (float_sub (snd p) (yp r) / h r)) (py_float oh))"
    by (auto simp: display_to_original_def qrectf_contains_def float_truediv_def Let_def split: if_splits)
  have "0 \<le> float_sub (fst p) (xp r)" using inside by (simp add: float_sub_def fl64_nonneg)
  then have "0 \<le> fl64 (float_sub (fst p) (xp r) / w r)" using assms(1) by (intro fl64_nonneg) simp
  moreover have "0 \<le> py_float ow" using assms(3) by (simp add: py_float_def fl64_nonneg)
  ultimately have x: "0 \<le> float_mul (fl64 (float_sub (fst p) (xp r) / w r)) (py_float ow)"
    by (simp add: float_mul_def fl64_nonneg)
  have "0 \<le> float_sub (snd p) (yp r)" using inside by (simp add: float_sub_def fl64_nonneg)
  then have "0 \<le> fl64 (float_sub (snd p) (yp r) / h r)" using assms(2) by (intro fl64_nonneg) simp
  moreover have "0 \<le> py_float oh" using assms(4) by (simp add: py_float_def fl64_nonneg)
  ultimately have y: "0 \<le> float_mul (fl64 (float_sub (snd p) (yp r) / h r)) (py_float oh)"
    by (simp add: float_mul_def fl64_nonneg)
  show ?thesis unfolding X Y using x y by (simp add: py_int_def)
qed

lemma handle_click_outside:
  assumes "display_to_original (image_rect s) (original_width s) (original_height s)
             (py_float (fst pos), py_float (snd pos)) = Inr None"
  shows "handle_click pos s = (None, s)"
  using assms by (simp add: handle_click_def)

lemma loaded_and_zoomed:
  "snd (set_zoom 50 (snd (load_current_image (\<lambda>p. Some (100, 100))
       ((init_tool 200 200)\<lparr> image_paths := [''dir/a.png''] \<rparr>))))
   = (init_tool 200 200)
       \<lparr> image_paths := [''dir/a.png''],
         original_image := Some (100, 100), original_width := 100, original_height := 100,
         scale_factor := 2, zoom := 50,
         image_rect := \<lparr> xp = 50, yp = 50, w = 100, h = 100 \<rparr>, pixmap_ok := True,
         marked_label := (0, 1), status_message := Annotating ''a.png'',
         effects := [ImRead ''dir/a.png''] \<rparr>"
  by (simp add: load_current_image_def update_display_def set_zoom_def then_do_def
      update_marked_count_def init_tool_def int_truediv_def py_int_def py_float_def
      float_mul_def fl64_examples Let_def basename_def)

text \<open>
  Claim C4 at a click on the right edge. A 100 x 100 image in a 200 x 200 label at
  zoom 50 is rendered 100 pixels wide from offset 50. The click at x = 150 lies
  outside the half-open range from 50 to 150, yet the rectangle test accepts it and
  the vertex (100, 50) is appended, whose x equals the original width.
\<close>

theorem click_on_right_edge_is_accepted:
  "image_rect (snd (set_zoom 50 (snd (load_current_image (\<lambda>p. Some (100, 100))
       ((init_tool 200 200)\<lparr> image_paths := [''dir/a.png''] \<rparr>)))))
     = \<lparr> xp = 50, yp = 50, w = 100, h = 100 \<rparr>
   \<and> original_width (snd (set_zoom 50 (snd (load_current_image (\<lambda>p. Some (100, 100))
       ((init_tool 200 200)\<lparr> image_paths := [''dir/a.png''] \<rparr>))))) = 100
   \<and> display_to_original \<lparr> xp = 50, yp = 50, w = 100, h = 100 \<rparr> 100 100 (150, 100)
     = Inr (Some (100, 50))
   \<and> current_polygon (snd (handle_click (150, 100)
       (snd (set_zoom 50 (snd (load_current_image (\<lambda>p. Some (100, 100))
         ((init_tool 200 200)\<lparr> image_paths := [''dir/a.png''] \<rparr>)))))))
     = [(100, 50)]"
proof -
  have d: "display_to_original \<lparr> xp = 50, yp = 50, w = 100, h = 100 \<rparr> 100 100 (150, 100)
     = Inr (Some (100, 50))"
    by (simp add: display_to_original_def qrectf_contains_def float_truediv_def py_int_def
        py_float_def float_add_def float_sub_def float_mul_def fl64_examples)
  show ?thesis
    unfolding loaded_and_zoomed
    using d
    by (simp add: handle_click_def add_polygon_point_def update_display_keeps init_tool_def
        py_float_def)
qed

section \<open>Finishing after an empty folder was opened\<close>

lemma lower_png: "lower ''a.png'' = ''a.png''"
  by (simp add: lower_def lower_char_def Let_def)

lemma opened_folder:
  "open_image_folder ''imgs'' [''a.png''] (\<lambda>p. Some (100, 100)) (init_tool 100 100) =
     (None, (init_tool 100 100)
       \<lparr> image_dir := ''imgs'', image_paths := [''imgs/a.png''],
         original_image := Some (100, 100), original_width := 100, original_height := 100,
         image_rect := \<lparr> xp = 0, yp = 0, w = 100, h = 100 \<rparr>, pixmap_ok := True,
         marked_label := (0, 1), status_message := Annotating ''a.png'',
         effects := [ImRead ''imgs/a.png''] \<rparr>)"
  by (simp add: open_image_folder_def lower_png endswith_def image_suffixes_def path_join_def
      load_current_image_def update_display_def then_do_def update_marked_count_def init_tool_def
      int_truediv_def py_int_def py_float_def float_mul_def Let_def basename_def)

lemma click_in_opened:
  assumes "image_rect s = \<lparr> xp = 0, yp = 0, w = 100, h = 100 \<rparr>" and "pixmap_ok s"
    and "original_width s = 100" and "original_height s = 100"
  shows "handle_click (25, 25) s = add_polygon_point 25 25 s"
    and "handle_click (50, 25) s = add_polygon_point 50 25 s"
    and "handle_click (25, 50) s = add_polygon_point 25 50 s"
  using assms
  by (simp_all add: handle_click_def display_to_original_def qrectf_contains_def float_truediv_def
      py_int_def py_float_def float_add_def float_sub_def float_mul_def fl64_examples)


lemma two_clicks:
  "snd (handle_click (50, 25) (snd (handle_click (25, 25)
     (snd (open_image_folder ''imgs'' [''a.png''] (\<lambda>p. Some (100, 100)) (init_tool 100 100)))))) =
   (init_tool 100 100)
       \<lparr> image_dir := ''imgs'', image_paths := [''imgs/a.png''],
         original_image := Some (100, 100), original_width := 100, original_height := 100,
         image_rect := \<lparr> xp = 0, yp = 0, w = 100, h = 100 \<rparr>, pixmap_ok := True,
         marked_label := (0, 1), status_message := Annotating ''a.png'',
         effects := [ImRead ''imgs/a.png''],
         current_polygon := [(25, 25), (50, 25)], drawn_polygon := [(25, 25), (50, 25)] \<rparr>"
  unfolding opened_folder snd_conv
  by (simp add: click_in_opened init_tool_def add_polygon_point_def update_display_def
      int_truediv_def py_int_def py_float_def float_mul_def original_to_display_def Let_def)

lemma empty_folder_opened:
  "open_image_folder ''empty'' [] imread s =
     (None, s\<lparr> image_dir := ''empty'', image_paths := [],
               effects := effects s @ [Warning NoImagesFound] \<rparr>)"
  by (simp add: open_image_folder_def Let_def)

text \<open>
  Claim C3 after an empty folder. A folder with one 100 x 100 image is opened in a
  100 x 100 label and two vertices are clicked. Then a folder without images is
  opened: \<open>open_image_folder\<close> has assigned the empty list before it warns and
  returns, the image stays displayed and the two vertices stay pending.
  \<open>finish_polygon\<close> warns and leaves the two vertices, as the claim says. A third
  click adds the third vertex, and \<open>finish_polygon\<close> raises \<open>IndexError\<close> at line
  406: no centroid is computed or recorded and the three vertices stay pending.
\<close>

theorem finish_retry_after_empty_folder_raises:
  "image_paths (snd (open_image_folder ''imgs'' [''a.png''] (\<lambda>p. Some (100, 100))
       (init_tool 100 100))) = [''imgs/a.png'']
   \<and> current_polygon (snd (handle_click (50, 25) (snd (handle_click (25, 25) (snd
       (open_image_folder ''imgs'' [''a.png''] (\<lambda>p. Some (100, 100)) (init_tool 100
       100))))))) = [(25, 25), (50, 25)]
   \<and> image_paths (snd (open_image_folder ''empty'' [] (\<lambda>p. Some (100, 100)) (snd
       (handle_click (50, 25) (snd (handle_click (25, 25) (snd (open_image_folder ''imgs''
       [''a.png''] (\<lambda>p. Some (100, 100)) (init_tool 100 100))))))))) = []
   \<and> pixmap_ok (snd (open_image_folder ''empty'' [] (\<lambda>p. Some (100, 100)) (snd
       (handle_click (50, 25) (snd (handle_click (25, 25) (snd (open_image_folder ''imgs''
       [''a.png''] (\<lambda>p. Some (100, 100)) (init_tool 100 100)))))))))
   \<and> effects (snd (open_image_folder ''empty'' [] (\<lambda>p. Some (100, 100)) (snd
       (handle_click (50, 25) (snd (handle_click (25, 25) (snd (open_image_folder ''imgs''
       [''a.png''] (\<lambda>p. Some (100, 100)) (init_tool 100 100))))))))) = [ImRead
       ''imgs/a.png'', Warning NoImagesFound]
   \<and> fst (finish_polygon (snd (open_image_folder ''empty'' [] (\<lambda>p. Some (100, 100)) (snd
       (handle_click (50, 25) (snd (handle_click (25, 25) (snd (open_image_folder ''imgs''
       [''a.png''] (\<lambda>p. Some (100, 100)) (init_tool 100 100)))))))))) = None
   \<and> current_polygon (snd (finish_polygon (snd (open_image_folder ''empty'' [] (\<lambda>p. Some
       (100, 100)) (snd (handle_click (50, 25) (snd (handle_click (25, 25) (snd
       (open_image_folder ''imgs'' [''a.png''] (\<lambda>p. Some (100, 100)) (init_tool 100
       100))))))))))) = [(25, 25), (50, 25)]
   \<and> effects (snd (finish_polygon (snd (open_image_folder ''empty'' [] (\<lambda>p. Some (100,
       100)) (snd (handle_click (50, 25) (snd (handle_click (25, 25) (snd (open_image_folder
       ''imgs'' [''a.png''] (\<lambda>p. Some (100, 100)) (init_tool 100 100))))))))))) =
       [ImRead ''imgs/a.png'', Warning NoImagesFound, Warning NeedThreePoints]
   \<and> handle_click (25, 50) (snd (finish_polygon (snd (open_image_folder ''empty'' [] (\<lambda>p.
       Some (100, 100)) (snd (handle_click (50, 25) (snd (handle_click (25, 25) (snd
       (open_image_folder ''imgs'' [''a.png''] (\<lambda>p. Some (100, 100)) (init_tool 100
       100))))))))))) = add_polygon_point 25 50 (snd (finish_polygon (snd (open_image_folder
       ''empty'' [] (\<lambda>p. Some (100, 100)) (snd (handle_click (50, 25) (snd
       (handle_click (25, 25) (snd (open_image_folder ''imgs'' [''a.png''] (\<lambda>p. Some
       (100, 100)) (init_tool 100 100)))))))))))
   \<and> current_polygon (snd (handle_click (25, 50) (snd (finish_polygon (snd (open_image_folder
       ''empty'' [] (\<lambda>p. Some (100, 100)) (snd (handle_click (50, 25) (snd
       (handle_click (25, 25) (snd (open_image_folder ''imgs'' [''a.png''] (\<lambda>p. Some
       (100, 100)) (init_tool 100 100))))))))))))) = [(25, 25), (50, 25), (25, 50)]
   \<and> fst (finish_polygon (snd (handle_click (25, 50) (snd (finish_polygon (snd (open_image_folder
       ''empty'' [] (\<lambda>p. Some (100, 100)) (snd (handle_click (50, 25) (snd
       (handle_click (25, 25) (snd (open_image_folder ''imgs'' [''a.png''] (\<lambda>p. Some
       (100, 100)) (init_tool 100 100)))))))))))))) = Some IndexError
   \<and> annotations (snd (finish_polygon (snd (handle_click (25, 50) (snd (finish_polygon (snd
       (open_image_folder ''empty'' [] (\<lambda>p. Some (100, 100)) (snd (handle_click (50,
       25) (snd (handle_click (25, 25) (snd (open_image_folder ''imgs'' [''a.png'']
       (\<lambda>p. Some (100, 100)) (init_tool 100 100))))))))))))))) = []
   \<and> current_centroid (snd (finish_polygon (snd (handle_click (25, 50) (snd (finish_polygon (snd
       (open_image_folder ''empty'' [] (\<lambda>p. Some (100, 100)) (snd (handle_click (50,
       25) (snd (handle_click (25, 25) (snd (open_image_folder ''imgs'' [''a.png'']
       (\<lambda>p. Some (100, 100)) (init_tool 100 100))))))))))))))) = None
   \<and> current_polygon (snd (finish_polygon (snd (handle_click (25, 50) (snd (finish_polygon (snd
       (open_image_folder ''empty'' [] (\<lambda>p. Some (100, 100)) (snd (handle_click (50,
       25) (snd (handle_click (25, 25) (snd (open_image_folder ''imgs'' [''a.png'']
       (\<lambda>p. Some (100, 100)) (init_tool 100 100))))))))))))))) = [(25, 25), (50,
       25), (25, 50)]"
proof -
  let ?T3 = "(init_tool 100 100)
       \<lparr> image_dir := ''imgs'', image_paths := [''imgs/a.png''],
         original_image := Some (100, 100), original_width := 100, original_height := 100,
         image_rect := \<lparr> xp = 0, yp = 0, w = 100, h = 100 \<rparr>, pixmap_ok := True,
         marked_label := (0, 1), status_message := Annotating ''a.png'',
         effects := [ImRead ''imgs/a.png''],
         current_polygon := [(25, 25), (50, 25)], drawn_polygon := [(25, 25), (50, 25)] \<rparr>"
  let ?T5 = "?T3\<lparr> image_dir := ''empty'', image_paths := [],
         effects := [ImRead ''imgs/a.png'', Warning NoImagesFound, Warning NeedThreePoints] \<rparr>"
  let ?T6 = "?T5\<lparr> current_polygon := [(25, 25), (50, 25), (25, 50)],
         drawn_polygon := [(25, 25), (50, 25), (25, 50)] \<rparr>"
  have f5: "finish_polygon (snd (open_image_folder ''empty'' [] (\<lambda>p. Some (100, 100)) ?T3)) = (None, ?T5)"
    by (simp add: empty_folder_opened finish_polygon_def init_tool_def)
  have c6: "handle_click (25, 50) ?T5 = add_polygon_point 25 50 ?T5"
    by (rule click_in_opened) (simp_all add: init_tool_def)
  have a6: "add_polygon_point 25 50 ?T5 = (None, ?T6)"
    by (simp add: init_tool_def add_polygon_point_def update_display_def
      int_truediv_def py_int_def py_float_def float_mul_def original_to_display_def Let_def)
  have f7: "finish_polygon ?T6 = (Some IndexError, ?T6)"
    by (rule finish_polygon_no_current_image) (simp_all add: init_tool_def)
  show ?thesis
    apply (unfold two_clicks f5 snd_conv c6 a6 f7 fst_conv)
    apply (unfold opened_folder)
    apply (simp add: empty_folder_opened init_tool_def)
    done
qed

section \<open>Drawing a point and converting it back\<close>

text \<open>Two roundings in a row, as in \<open>int(x * scale_factor * zoom_factor)\<close>.\<close>

lemma fl64_two_steps:
  assumes p: "0 \<le> p" and b: "0 \<le> b"
  shows "\<bar>fl64 (fl64 p * b) - p * b\<bar> \<le> 3 / 2 ^ 53 * (p * b)"
proof -
  define u :: rat where "u = 1 / 2 ^ 53"
  have u: "0 \<le> u" "u \<le> 1" by (simp_all add: u_def)
  have e1: "\<bar>fl64 p - p\<bar> \<le> p * u" using fl64_error [of p] p by (simp add: u_def)
  have f0: "0 \<le> fl64 p" using p by (rule fl64_nonneg)
  have f1: "fl64 p \<le> p + p * u" using e1 by linarith
  have "\<bar>fl64 (fl64 p * b) - fl64 p * b\<bar> \<le> \<bar>fl64 p * b\<bar> / 2 ^ 53" by (rule fl64_error)
  also have "\<dots> = fl64 p * b * u" using f0 b by (simp add: u_def)
  also have "\<dots> \<le> (p + p * u) * b * u"
    using f1 b u by (intro mult_right_mono) simp_all
  also have "\<dots> = p * b * u + p * b * (u * u)" by (simp add: algebra_simps)
  also have "\<dots> \<le> p * b * u + p * b * (1 * u)"
    using p b u by (intro add_left_mono mult_left_mono mult_right_mono) simp_all
  finally have e2: "\<bar>fl64 (fl64 p * b) - fl64 p * b\<bar> \<le> 2 * (p * b * u)"
    by (simp add: algebra_simps)
  have "\<bar>fl64 p * b - p * b\<bar> = \<bar>fl64 p - p\<bar> * b" using b by (simp add: abs_mult left_diff_distrib [symmetric])
  also have "\<dots> \<le> p * u * b" using e1 b by (intro mult_right_mono) simp_all
  finally have e3: "\<bar>fl64 p * b - p * b\<bar> \<le> p * b * u" by (simp add: algebra_simps)
  have "\<bar>fl64 (fl64 p * b) - p * b\<bar> \<le> \<bar>fl64 (fl64 p * b) - fl64 p * b\<bar> + \<bar>fl64 p * b - p * b\<bar>"
    by linarith
  also have "\<dots> \<le> 3 * (p * b * u)" using e2 e3 by linarith
  finally show ?thesis by (simp add: u_def)
qed


text \<open>
  The arithmetic of the round trip. \<open>s\<close> is the product of the fit scale and the zoom
  factor, \<open>c\<close> and \<open>wf\<close> are the computed products for the coordinate and for the
  image width, each within three roundings' relative error of the exact product,
  \<open>d\<close> and \<open>wi\<close> are their integer parts, and \<open>g\<close> is the computed product of
  the way back.
\<close>

lemma round_trip_display:
  fixes x W wi d :: int and s c wf :: rat
  assumes x0: "0 \<le> x" and xW: "x < W" and Wb: "W \<le> 2 ^ 20" and s: "0 < s"
    and c: "\<bar>c - of_int x * s\<bar> \<le> 3 / 2 ^ 53 * (of_int x * s)"
    and wf: "\<bar>wf - of_int W * s\<bar> \<le> 3 / 2 ^ 53 * (of_int W * s)"
    and d: "d = \<lfloor>c\<rfloor>" and wi: "wi = \<lfloor>wf\<rfloor>"
  shows "0 \<le> d" and "d \<le> wi"
proof -
  define P where "P = of_int x * s"
  define Q where "Q = of_int W * s"
  have P0: "0 \<le> P" using x0 s by (simp add: P_def)
  have "(of_int x :: rat) \<le> of_int (W - 1)" using xW by (simp only: of_int_le_iff)
  then have "of_int x * s \<le> of_int (W - 1) * s" using s by (intro mult_right_mono) simp_all
  then have PQ: "P \<le> Q - s" by (simp add: P_def Q_def algebra_simps)
  have "(of_int W :: rat) \<le> of_int (2 ^ 20)" using Wb by (simp only: of_int_le_iff)
  then have "of_int W * s \<le> of_int (2 ^ 20) * s" using s by (intro mult_right_mono) simp_all
  then have Qs: "Q \<le> 1048576 * s" by (simp add: Q_def)
  from c have c1: "P - 3 / 2 ^ 53 * P \<le> c" and c2: "c \<le> P + 3 / 2 ^ 53 * P"
    unfolding P_def [symmetric] by linarith+
  from wf have w1: "Q - 3 / 2 ^ 53 * Q \<le> wf"
    unfolding Q_def [symmetric] by linarith
  have "0 \<le> c" using c1 P0 by simp
  then show "0 \<le> d" by (simp add: d)
  have "c \<le> wf" using c2 w1 PQ Qs s P0 by simp
  then show "d \<le> wi" unfolding d wi by (rule floor_mono)
qed

lemma round_trip_back:
  fixes x W wi d X :: int and s c wf g :: rat
  assumes x0: "0 \<le> x" and xW: "x < W" and Wb: "W \<le> 2 ^ 20" and s: "0 < s"
    and c: "\<bar>c - of_int x * s\<bar> \<le> 3 / 2 ^ 53 * (of_int x * s)"
    and wf: "\<bar>wf - of_int W * s\<bar> \<le> 3 / 2 ^ 53 * (of_int W * s)"
    and d: "d = \<lfloor>c\<rfloor>" and wi: "wi = \<lfloor>wf\<rfloor>"
    and wi1: "1 \<le> wi" and wib: "wi \<le> 2 ^ 23"
    and g: "\<bar>g - of_int d / of_int wi * of_int W\<bar> \<le> 3 / 2 ^ 53 * (of_int d / of_int wi * of_int W)"
    and X: "X = \<lfloor>g\<rfloor>"
  shows "of_int x - of_int W / of_int wi - 2 < (of_int X :: rat)"
    and "(of_int X :: rat) < of_int x + of_int W / of_int wi"
    and "W \<le> wi \<Longrightarrow> x - 2 \<le> X \<and> X \<le> x"
proof -
  note dd = round_trip_display [OF x0 xW Wb s c wf d wi]
  define xr :: rat where "xr = of_int x"
  define Wr :: rat where "Wr = of_int W"
  define wr :: rat where "wr = of_int wi"
  define dr :: rat where "dr = of_int d"
  define P where "P = xr * s"
  define Q where "Q = Wr * s"
  define K where "K = xr * wr"
  define PQ where "PQ = xr * Q"
  define DW where "DW = dr * Wr"
  define G where "G = g * wr"
  have xr0: "0 \<le> xr" using x0 by (simp add: xr_def)
  have "(of_int x :: rat) \<le> of_int (W - 1)" using xW by (simp only: of_int_le_iff)
  then have xrW: "xr \<le> Wr - 1" by (simp add: xr_def Wr_def)
  have "(of_int W :: rat) \<le> of_int (2 ^ 20)" using Wb by (simp only: of_int_le_iff)
  then have Wrb: "Wr \<le> 1048576" by (simp add: Wr_def)
  have "(of_int 1 :: rat) \<le> of_int wi" using wi1 by (simp only: of_int_le_iff)
  then have wr1: "1 \<le> wr" by (simp add: wr_def)
  have "(of_int wi :: rat) \<le> of_int (2 ^ 23)" using wib by (simp only: of_int_le_iff)
  then have wrb: "wr \<le> 8388608" by (simp add: wr_def)
  have dr0: "0 \<le> dr" using dd(1) by (simp add: dr_def)
  have "(of_int d :: rat) \<le> of_int wi" using dd(2) by (simp only: of_int_le_iff)
  then have drw: "dr \<le> wr" by (simp add: dr_def wr_def)
  have Wr0: "0 \<le> Wr" using xr0 xrW by linarith
  have P0: "0 \<le> P" using xr0 s by (simp add: P_def)
  have Q0: "0 \<le> Q" using Wr0 s by (simp add: Q_def)
  have PQ0: "0 \<le> PQ" using xr0 Q0 by (simp add: PQ_def)
  have DW0: "0 \<le> DW" using dr0 Wr0 by (simp add: DW_def)
  have K0: "0 \<le> K" using xr0 wr1 by (simp add: K_def)
  have "xr * wr \<le> 1048576 * wr" using xrW Wrb wr1 by (intro mult_right_mono) simp_all
  then have Kb: "K \<le> 1048576 * wr" by (simp add: K_def)
  have PW: "P * Wr = PQ" by (simp add: P_def PQ_def Q_def algebra_simps)
  from c have c1: "P - 3 / 2 ^ 53 * P \<le> c" and c2: "c \<le> P + 3 / 2 ^ 53 * P"
    unfolding xr_def [symmetric] P_def [symmetric] by linarith+
  from wf have w1: "Q - 3 / 2 ^ 53 * Q \<le> wf" and w2: "wf \<le> Q + 3 / 2 ^ 53 * Q"
    unfolding Wr_def [symmetric] Q_def [symmetric] by linarith+
  have dc: "dr \<le> c" "c < dr + 1" by (simp_all add: dr_def d) linarith
  have ww: "wr \<le> wf" "wf < wr + 1" by (simp_all add: wr_def wi) linarith
  have "dr * Wr \<le> (P + 3 / 2 ^ 53 * P) * Wr"
    using dc(1) c2 Wr0 by (intro mult_right_mono) simp_all
  then have F1: "DW \<le> PQ + 3 / 2 ^ 53 * PQ"
    by (simp add: DW_def PW [symmetric] algebra_simps)
  have "(P - 3 / 2 ^ 53 * P - 1) * Wr \<le> dr * Wr"
    using dc(2) c1 Wr0 by (intro mult_right_mono) simp_all
  then have F1': "PQ - 3 / 2 ^ 53 * PQ - Wr \<le> DW"
    by (simp add: DW_def PW [symmetric] algebra_simps)
  have "xr * (Q - 3 / 2 ^ 53 * Q) \<le> xr * (wr + 1)"
    using w1 ww(2) xr0 by (intro mult_left_mono) simp_all
  then have F2: "PQ - 3 / 2 ^ 53 * PQ \<le> K + xr"
    by (simp add: PQ_def K_def algebra_simps)
  have "xr * wr \<le> xr * (Q + 3 / 2 ^ 53 * Q)"
    using w2 ww(1) xr0 by (intro mult_left_mono) simp_all
  then have F2': "K \<le> PQ + 3 / 2 ^ 53 * PQ"
    by (simp add: PQ_def K_def algebra_simps)
  have wrne: "wr \<noteq> 0" using wr1 by simp
  have Dw: "dr / wr * Wr * wr = DW" using wrne by (simp add: DW_def)
  from g have g1: "dr / wr * Wr - 3 / 2 ^ 53 * (dr / wr * Wr) \<le> g"
    and g2: "g \<le> dr / wr * Wr + 3 / 2 ^ 53 * (dr / wr * Wr)"
    unfolding dr_def [symmetric] wr_def [symmetric] Wr_def [symmetric] by linarith+
  have "g * wr \<le> (dr / wr * Wr + 3 / 2 ^ 53 * (dr / wr * Wr)) * wr"
    using g2 wr1 by (intro mult_right_mono) simp_all
  also have "\<dots> = dr / wr * Wr * wr + 3 / 2 ^ 53 * (dr / wr * Wr * wr)"
    by (simp only: distrib_right mult.assoc)
  finally have F3: "G \<le> DW + 3 / 2 ^ 53 * DW" by (simp only: Dw G_def)
  have "(dr / wr * Wr - 3 / 2 ^ 53 * (dr / wr * Wr)) * wr \<le> g * wr"
    using g1 wr1 by (intro mult_right_mono) simp_all
  moreover have "(dr / wr * Wr - 3 / 2 ^ 53 * (dr / wr * Wr)) * wr
      = dr / wr * Wr * wr - 3 / 2 ^ 53 * (dr / wr * Wr * wr)"
    by (simp only: left_diff_distrib mult.assoc)
  ultimately have F3': "DW - 3 / 2 ^ 53 * DW \<le> G" by (simp only: Dw G_def)
  have up: "G < K + Wr" and up1: "Wr \<le> wr \<Longrightarrow> G < K + wr"
    using F1 F2 F3 K0 Kb wrb xr0 xrW Wrb PQ0 DW0 by simp_all
  have lo: "K - Wr - wr \<le> G"
    using F1' F2' F3' K0 Kb wr1 wrb xr0 xrW Wrb PQ0 DW0 by simp
  have gup: "g < xr + Wr / wr"
  proof -
    have "g * wr < (xr + Wr / wr) * wr" using up wrne by (simp add: G_def K_def distrib_right)
    then show ?thesis using wr1 by (simp add: mult_less_cancel_right)
  qed
  have glo: "xr - Wr / wr - 1 \<le> g"
  proof -
    have "(xr - Wr / wr - 1) * wr \<le> g * wr"
      using lo wrne by (simp add: G_def K_def left_diff_distrib)
    then show ?thesis using wr1 by (simp add: mult_le_cancel_right)
  qed
  have Xg: "of_int X \<le> g" "g < of_int X + 1" by (simp_all add: X) linarith
  show "of_int x - of_int W / of_int wi - 2 < (of_int X :: rat)"
    using glo Xg(2) by (simp add: xr_def Wr_def wr_def)
  show "(of_int X :: rat) < of_int x + of_int W / of_int wi"
    using gup Xg(1) by (simp add: xr_def Wr_def wr_def)
  show "x - 2 \<le> X \<and> X \<le> x" if "W \<le> wi"
  proof -
    have "(of_int W :: rat) \<le> of_int wi" using that by (simp only: of_int_le_iff)
    then have le: "Wr \<le> wr" by (simp add: Wr_def wr_def)
    have "g * wr < (xr + 1) * wr" using up1 [OF le] by (simp add: G_def K_def distrib_right)
    then have "g < xr + 1" using wr1 by (simp add: mult_less_cancel_right)
    with Xg(1) have "(of_int X :: rat) < of_int (x + 1)" by (simp add: xr_def)
    then have a: "X < x + 1" by (simp only: of_int_less_iff)
    have "Wr / wr \<le> 1" using le wr1 by (simp add: divide_le_eq)
    with glo Xg(2) have "(of_int (x - 3) :: rat) < of_int X" by (simp add: xr_def)
    then have "x - 3 < X" by (simp only: of_int_less_iff)
    with a show ?thesis by simp
  qed
qed

lemma py_int_floor: "0 \<le> q \<Longrightarrow> py_int q = \<lfloor>q\<rfloor>"
  by (simp add: py_int_def)

lemma py_int_nonpos: "q \<le> 0 \<Longrightarrow> py_int q \<le> 0"
  by (auto simp: py_int_def ceiling_le_iff floor_le_iff intro: order_less_le_trans)

lemma update_display_loaded:
  assumes "original_image s = Some (H, W)" and "W \<noteq> 0" and "H \<noteq> 0"
  shows "scale_factor (snd (update_display s))
           = min (fl64 (of_int (label_width s) / of_int W)) (fl64 (of_int (label_height s) / of_int H))"
    and "w (image_rect (snd (update_display s)))
           = py_float (py_int (float_mul (float_mul (py_float W) (scale_factor (snd (update_display s))))
                                 (fl64 (of_int (zoom s) / 100))))"
    and "h (image_rect (snd (update_display s)))
           = py_float (py_int (float_mul (float_mul (py_float H) (scale_factor (snd (update_display s))))
                                 (fl64 (of_int (zoom s) / 100))))"
    and "xp (image_rect (snd (update_display s)))
           = fl64 (of_int (label_width s
                - py_int (float_mul (float_mul (py_float W) (scale_factor (snd (update_display s))))
                                 (fl64 (of_int (zoom s) / 100)))) / 2)"
    and "yp (image_rect (snd (update_display s)))
           = fl64 (of_int (label_height s
                - py_int (float_mul (float_mul (py_float H) (scale_factor (snd (update_display s))))
                                 (fl64 (of_int (zoom s) / 100)))) / 2)"
    and "pixmap_ok (snd (update_display s))
           = (0 < py_int (float_mul (float_mul (py_float W) (scale_factor (snd (update_display s))))
                                 (fl64 (of_int (zoom s) / 100)))
              \<and> 0 < py_int (float_mul (float_mul (py_float H) (scale_factor (snd (update_display s))))
                                 (fl64 (of_int (zoom s) / 100))))"
  using assms by (simp_all add: update_display_def int_truediv_def Let_def)

lemma fit_scale_bound:
  fixes W lw :: int
  assumes W: "0 < W" and lw: "lw \<le> 2 ^ 20" and pos: "0 < fl64 (of_int lw / of_int W)"
  shows "of_int W * fl64 (of_int lw / of_int W) \<le> 2 ^ 20 * (1 + 1 / 2 ^ 53)" and "1 \<le> lw"
proof -
  define r :: rat where "r = of_int lw / of_int W"
  have Wr: "(0::rat) < of_int W" using W by simp
  have r0: "0 < r"
  proof (rule ccontr)
    assume "\<not> 0 < r"
    then have "fl64 r \<le> 0" by (intro fl64_nonpos) simp
    with pos show False by (simp add: r_def)
  qed
  then have "(0::rat) < of_int lw" using Wr by (simp add: r_def zero_less_divide_iff)
  then show "1 \<le> lw" by simp
  have "fl64 r \<le> r + r / 2 ^ 53" using fl64_error [of r] r0 by linarith
  then have "of_int W * fl64 r \<le> of_int W * (r + r / 2 ^ 53)"
    using Wr by (intro mult_left_mono) simp_all
  also have "\<dots> = of_int lw * (1 + 1 / 2 ^ 53)" using Wr by (simp add: r_def algebra_simps)
  also have "\<dots> \<le> of_int (2 ^ 20) * (1 + 1 / 2 ^ 53)"
    using lw by (intro mult_right_mono) (simp_all only: of_int_le_iff, simp)
  finally show "of_int W * fl64 (of_int lw / of_int W) \<le> 2 ^ 20 * (1 + 1 / 2 ^ 53)"
    by (simp add: r_def)
qed

lemma zoom_factor_bound:
  fixes z :: int
  assumes "10 \<le> z" and "z \<le> 500"
  shows "0 < fl64 (of_int z / 100)" and "fl64 (of_int z / 100) \<le> 5 * (1 + 1 / 2 ^ 53)"
proof -
  define r :: rat where "r = of_int z / 100"
  have "(of_int 10 :: rat) \<le> of_int z" "(of_int z :: rat) \<le> of_int 500"
    using assms by (simp_all only: of_int_le_iff)
  then have r: "0 < r" "r \<le> 5" by (simp_all add: r_def)
  show "0 < fl64 (of_int z / 100)" using r(1) unfolding r_def by (rule fl64_pos)
  have "fl64 r \<le> r + r / 2 ^ 53" using fl64_error [of r] r(1) by linarith
  also have "\<dots> \<le> 5 + 5 / 2 ^ 53" using r(2) by simp
  finally show "fl64 (of_int z / 100) \<le> 5 * (1 + 1 / 2 ^ 53)" by (simp add: r_def)
qed


lemma fl64_two_steps_nonneg:
  assumes "0 \<le> p" and "0 \<le> b"
  shows "0 \<le> fl64 (fl64 p * b)"
proof -
  have "0 \<le> fl64 p" using assms(1) by (rule fl64_nonneg)
  then have "0 \<le> fl64 p * b" using assms(2) by simp
  then show ?thesis by (rule fl64_nonneg)
qed

text \<open>
  One axis of the round trip: \<open>d\<close> is the drawn coordinate, \<open>wi\<close> the rendered
  size, \<open>X\<close> the coordinate converted back.
\<close>

lemma round_trip_axis:
  fixes x W wi d X :: int and sf zf :: rat
  assumes x0: "0 \<le> x" and xW: "x < W" and Wb: "W \<le> 2 ^ 20"
    and sf: "0 < sf" and zf: "0 < zf"
    and sfb: "of_int W * sf \<le> 2 ^ 20 * (1 + 1 / 2 ^ 53)"
    and zfb: "zf \<le> 5 * (1 + 1 / 2 ^ 53)"
    and wi: "wi = py_int (float_mul (float_mul (py_float W) sf) zf)" and wi0: "0 < wi"
    and d: "d = py_int (float_mul (float_mul (py_float x) sf) zf)"
    and X: "X = py_int (float_mul (fl64 (of_int d / of_int wi)) (py_float W))"
  shows "0 \<le> d" and "d \<le> wi" and "wi \<le> 2 ^ 23"
    and "\<bar>of_int (X - x)\<bar> < (of_int W :: rat) / of_int wi + 2"
    and "W \<le> wi \<Longrightarrow> x - 2 \<le> X \<and> X \<le> x"
proof -
  define s where "s = sf * zf"
  define c where "c = fl64 (fl64 (of_int x * sf) * zf)"
  define wf where "wf = fl64 (fl64 (of_int W * sf) * zf)"
  define g where "g = fl64 (fl64 (of_int d / of_int wi) * of_int W)"
  have s: "0 < s" using sf zf by (simp add: s_def)
  have W0: "0 < W" using x0 xW by linarith
  have fx: "py_float x = of_int x" using x0 xW Wb by (intro py_float_of_int) simp
  have fW: "py_float W = of_int W" using W0 Wb by (intro py_float_of_int) simp
  have xs0: "0 \<le> of_int x * sf" using x0 sf by simp
  have Ws0: "0 \<le> of_int W * sf" using W0 sf by simp
  have zf0: "0 \<le> zf" using zf by simp
  have ce: "\<bar>c - of_int x * s\<bar> \<le> 3 / 2 ^ 53 * (of_int x * s)"
    using fl64_two_steps [OF xs0 zf0] by (simp only: c_def s_def mult.assoc)
  have we: "\<bar>wf - of_int W * s\<bar> \<le> 3 / 2 ^ 53 * (of_int W * s)"
    using fl64_two_steps [OF Ws0 zf0] by (simp only: wf_def s_def mult.assoc)
  have c0: "0 \<le> c" unfolding c_def using xs0 zf0 by (rule fl64_two_steps_nonneg)
  have wf0: "0 \<le> wf" unfolding wf_def using Ws0 zf0 by (rule fl64_two_steps_nonneg)
  have dfl: "d = \<lfloor>c\<rfloor>"
    using c0 by (simp add: d fx float_mul_def c_def py_int_floor)
  have wfl: "wi = \<lfloor>wf\<rfloor>"
    using wf0 by (simp add: wi fW float_mul_def wf_def py_int_floor)
  have wi1: "1 \<le> wi" using wi0 by simp
  define Q where "Q = of_int W * s"
  have "Q = of_int W * sf * zf" by (simp add: Q_def s_def)
  also have "\<dots> \<le> 2 ^ 20 * (1 + 1 / 2 ^ 53) * (5 * (1 + 1 / 2 ^ 53))"
    using sfb zfb _ zf0 by (rule mult_mono) simp
  finally have Wsb: "Q \<le> 2 ^ 20 * (1 + 1 / 2 ^ 53) * (5 * (1 + 1 / 2 ^ 53))" .
  have "wf \<le> Q + 3 / 2 ^ 53 * Q" using we unfolding Q_def [symmetric] by linarith
  with Wsb have "wf < 2 ^ 23" by simp
  then have "\<lfloor>wf\<rfloor> < 2 ^ 23" by (simp add: floor_less_iff)
  then show wib: "wi \<le> 2 ^ 23" by (simp add: wfl)
  note dd = round_trip_display [OF x0 xW Wb s ce we dfl wfl]
  show "0 \<le> d" and "d \<le> wi" by (rule dd)+
  have q0: "(0::rat) \<le> of_int d / of_int wi" using dd(1) wi0 by simp
  have Wr0: "(0::rat) \<le> of_int W" using W0 by simp
  have ge: "\<bar>g - of_int d / of_int wi * of_int W\<bar> \<le> 3 / 2 ^ 53 * (of_int d / of_int wi * of_int W)"
    using fl64_two_steps [OF q0 Wr0] by (simp only: g_def)
  have g0: "0 \<le> g" unfolding g_def using q0 Wr0 by (rule fl64_two_steps_nonneg)
  have Xfl: "X = \<lfloor>g\<rfloor>"
    using g0 by (simp add: X fW float_mul_def g_def py_int_floor)
  note bk = round_trip_back [OF x0 xW Wb s ce we dfl wfl wi1 wib ge Xfl]
  have "(0::rat) < of_int W / of_int wi" using W0 wi0 by simp
  with bk(1,2) show "\<bar>of_int (X - x)\<bar> < (of_int W :: rat) / of_int wi + 2"
    by (simp add: abs_less_iff)
  show "x - 2 \<le> X \<and> X \<le> x" if "W \<le> wi" using bk(3) [OF that] .
qed

text \<open>The rectangle is centred exactly, and the drawn point lies inside it.\<close>

lemma centred_rectangle:
  fixes lw wi d :: int
  assumes "1 \<le> lw" and "lw \<le> 2 ^ 20" and "1 \<le> wi" and "wi \<le> 2 ^ 23"
    and "0 \<le> d" and "d \<le> wi"
  shows "fl64 (of_int (lw - wi) / 2) = of_int (lw - wi) / 2"
    and "py_float wi = of_int wi"
    and "float_add (of_int (lw - wi) / 2) (of_int wi) = of_int (lw - wi) / 2 + of_int wi"
    and "float_sub (of_int d + of_int (lw - wi) / 2) (of_int (lw - wi) / 2) = of_int d"
proof -
  show "fl64 (of_int (lw - wi) / 2) = of_int (lw - wi) / 2"
    using assms by (intro fl64_half_of_int) simp
  show "py_float wi = of_int wi" using assms by (intro py_float_of_int) simp
  have "\<bar>lw + wi\<bar> \<le> 2 ^ 53" using assms by simp
  from fl64_half_of_int [OF this]
  show "float_add (of_int (lw - wi) / 2) (of_int wi) = of_int (lw - wi) / 2 + of_int wi"
    by (simp add: float_add_def field_simps)
  have "\<bar>d\<bar> \<le> 2 ^ 53" using assms by simp
  from fl64_of_int [OF this]
  show "float_sub (of_int d + of_int (lw - wi) / 2) (of_int (lw - wi) / 2) = of_int d"
    by (simp add: float_sub_def)
qed


lemma qrectf_contains_inside:
  assumes "0 < ww" and "0 < hh"
    and "float_add xo ww = xo + ww" and "float_add yo hh = yo + hh"
    and "0 \<le> dx" and "dx \<le> ww" and "0 \<le> dy" and "dy \<le> hh"
  shows "qrectf_contains \<lparr> xp = xo, yp = yo, w = ww, h = hh \<rparr> (dx + xo, dy + yo)"
  using assms by (simp add: qrectf_contains_def Let_def)

lemma display_to_original_inside:
  fixes lw lh wi hi d e :: int
  assumes "1 \<le> lw" and "lw \<le> 2 ^ 20" and "1 \<le> wi" and "wi \<le> 2 ^ 23"
    and "0 \<le> d" and "d \<le> wi"
    and "1 \<le> lh" and "lh \<le> 2 ^ 20" and "1 \<le> hi" and "hi \<le> 2 ^ 23"
    and "0 \<le> e" and "e \<le> hi"
  shows "display_to_original
           \<lparr> xp = of_int (lw - wi) / 2, yp = of_int (lh - hi) / 2, w = of_int wi, h = of_int hi \<rparr>
           ow oh (of_int d + of_int (lw - wi) / 2, of_int e + of_int (lh - hi) / 2)
         = Inr (Some (py_int (float_mul (fl64 (of_int d / of_int wi)) (py_float ow)),
                      py_int (float_mul (fl64 (of_int e / of_int hi)) (py_float oh))))"
proof -
  note cx = centred_rectangle [OF assms(1-6)]
  note cy = centred_rectangle [OF assms(7-12)]
  have wpos: "(0::rat) < of_int wi" and hpos: "(0::rat) < of_int hi"
    using assms(3,9) by simp_all
  have dle: "(of_int d :: rat) \<le> of_int wi" and ele: "(of_int e :: rat) \<le> of_int hi"
    using assms(6,12) by (simp_all only: of_int_le_iff)
  have d0: "(0::rat) \<le> of_int d" and e0: "(0::rat) \<le> of_int e"
    using assms(5,11) by simp_all
  have inside: "qrectf_contains
      \<lparr> xp = of_int (lw - wi) / 2, yp = of_int (lh - hi) / 2, w = of_int wi, h = of_int hi \<rparr>
      (of_int d + of_int (lw - wi) / 2, of_int e + of_int (lh - hi) / 2)"
    by (rule qrectf_contains_inside [OF wpos hpos cx(3) cy(3) d0 dle e0 ele])
  have wn: "(of_int wi :: rat) \<noteq> 0" and hn: "(of_int hi :: rat) \<noteq> 0"
    using wpos hpos by simp_all
  show ?thesis
    unfolding display_to_original_def qrectf.simps fst_conv snd_conv cx(4) cy(4) float_truediv_def
    by (simp only: inside wn hn not_True_eq_False if_False sum.case)
qed

text \<open>
  Claim C5, amended. For an image of shape (H, W) with sides up to \<open>2 ^ 20\<close>, in a
  label with sides up to \<open>2 ^ 20\<close>, at a zoom from 10 to 500, displayed with a
  non-null pixmap, and an original point (x, y) inside the image: drawing the point,
  adding the offset of the rectangle and converting back gives a point (X, Y) whose
  distance from (x, y) is less than W / rendered width + 2 horizontally and less than
  H / rendered height + 2 vertically. When the rendered image is at least as large as
  the original, X is x, x - 1 or x - 2, and Y is y, y - 1 or y - 2.
\<close>

theorem round_trip_loss_bounded_by_scale:
  "original_image s = Some (H, W) \<and> 0 \<le> x \<and> x < W \<and> 0 \<le> y \<and> y < H
     \<and> W \<le> 2 ^ 20 \<and> H \<le> 2 ^ 20 \<and> label_width s \<le> 2 ^ 20 \<and> label_height s \<le> 2 ^ 20
     \<and> 10 \<le> zoom s \<and> zoom s \<le> 500
     \<and> pixmap_ok (snd (update_display s)) \<longrightarrow>
   (\<exists>X Y.
       display_to_original (image_rect (snd (update_display s))) W H
         (of_int (fst (original_to_display (scale_factor (snd (update_display s)))
                        (fl64 (of_int (zoom (snd (update_display s))) / 100)) (x, y)))
            + xp (image_rect (snd (update_display s))),
          of_int (snd (original_to_display (scale_factor (snd (update_display s)))
                        (fl64 (of_int (zoom (snd (update_display s))) / 100)) (x, y)))
            + yp (image_rect (snd (update_display s))))
         = Inr (Some (X, Y))
     \<and> \<bar>of_int (X - x)\<bar> < of_int W / w (image_rect (snd (update_display s))) + 2
     \<and> \<bar>of_int (Y - y)\<bar> < of_int H / h (image_rect (snd (update_display s))) + 2
     \<and> (of_int W \<le> w (image_rect (snd (update_display s))) \<longrightarrow> x - 2 \<le> X \<and> X \<le> x)
     \<and> (of_int H \<le> h (image_rect (snd (update_display s))) \<longrightarrow> y - 2 \<le> Y \<and> Y \<le> y))"
proof
  assume a: "original_image s = Some (H, W) \<and> 0 \<le> x \<and> x < W \<and> 0 \<le> y \<and> y < H
     \<and> W \<le> 2 ^ 20 \<and> H \<le> 2 ^ 20 \<and> label_width s \<le> 2 ^ 20 \<and> label_height s \<le> 2 ^ 20
     \<and> 10 \<le> zoom s \<and> zoom s \<le> 500
     \<and> pixmap_ok (snd (update_display s))"
  let ?T = "snd (update_display s)"
  define sf where "sf = scale_factor ?T"
  define zf where "zf = fl64 (of_int (zoom s) / 100)"
  define wi where "wi = py_int (float_mul (float_mul (py_float W) sf) zf)"
  define hi where "hi = py_int (float_mul (float_mul (py_float H) sf) zf)"
  define d where "d = py_int (float_mul (float_mul (py_float x) sf) zf)"
  define e where "e = py_int (float_mul (float_mul (py_float y) sf) zf)"
  define X where "X = py_int (float_mul (fl64 (of_int d / of_int wi)) (py_float W))"
  define Y where "Y = py_int (float_mul (fl64 (of_int e / of_int hi)) (py_float H))"
  from a have img: "original_image s = Some (H, W)"
    and x: "0 \<le> x" "x < W" and y: "0 \<le> y" "y < H"
    and Wb: "W \<le> 2 ^ 20" and Hb: "H \<le> 2 ^ 20"
    and lwb: "label_width s \<le> 2 ^ 20" and lhb: "label_height s \<le> 2 ^ 20"
    and z: "10 \<le> zoom s" "zoom s \<le> 500"
    and pm: "pixmap_ok ?T" by blast+
  have W0: "0 < W" and H0: "0 < H" using x y by linarith+
  then have Wn: "W \<noteq> 0" and Hn: "H \<noteq> 0" by simp_all
  note ud = update_display_loaded [OF img Wn Hn, folded sf_def zf_def, folded wi_def hi_def]
  have zoomT: "zoom ?T = zoom s" by (simp add: update_display_keeps)
  have wi0: "0 < wi" and hi0: "0 < hi" using pm unfolding ud(6) by simp_all
  note zb = zoom_factor_bound [OF z, folded zf_def]
  have fW: "py_float W = of_int W" using W0 Wb by (intro py_float_of_int) simp
  have fH: "py_float H = of_int H" using H0 Hb by (intro py_float_of_int) simp
  have sf0: "0 < sf"
  proof (rule ccontr)
    assume "\<not> 0 < sf"
    then have "of_int W * sf \<le> 0" using W0 by (simp add: mult_le_0_iff)
    then have "fl64 (of_int W * sf) \<le> 0" by (rule fl64_nonpos)
    then have "fl64 (of_int W * sf) * zf \<le> 0" using zb(1) by (simp add: mult_le_0_iff)
    then have "fl64 (fl64 (of_int W * sf) * zf) \<le> 0" by (rule fl64_nonpos)
    then have "wi \<le> 0" unfolding wi_def fW float_mul_def by (rule py_int_nonpos)
    with wi0 show False by simp
  qed
  have sfx: "sf \<le> fl64 (of_int (label_width s) / of_int W)"
    and sfy: "sf \<le> fl64 (of_int (label_height s) / of_int H)"
    unfolding ud(1) by simp_all
  have px: "0 < fl64 (of_int (label_width s) / of_int W)" using sf0 sfx by linarith
  have py: "0 < fl64 (of_int (label_height s) / of_int H)" using sf0 sfy by linarith
  note bx = fit_scale_bound [OF W0 lwb px]
  note b_y = fit_scale_bound [OF H0 lhb py]
  have "of_int W * sf \<le> of_int W * fl64 (of_int (label_width s) / of_int W)"
    using sfx W0 by (intro mult_left_mono) simp_all
  with bx(1) have sbx: "of_int W * sf \<le> 2 ^ 20 * (1 + 1 / 2 ^ 53)" by linarith
  have "of_int H * sf \<le> of_int H * fl64 (of_int (label_height s) / of_int H)"
    using sfy H0 by (intro mult_left_mono) simp_all
  with b_y(1) have sby: "of_int H * sf \<le> 2 ^ 20 * (1 + 1 / 2 ^ 53)" by linarith
  note ax = round_trip_axis [OF x Wb sf0 zb(1) sbx zb(2) wi_def wi0 d_def X_def]
  note ay = round_trip_axis [OF y Hb sf0 zb(1) sby zb(2) hi_def hi0 e_def Y_def]
  have wi1: "1 \<le> wi" and hi1: "1 \<le> hi" using wi0 hi0 by simp_all
  note cx = centred_rectangle [OF bx(2) lwb wi1 ax(3) ax(1) ax(2)]
  note cy = centred_rectangle [OF b_y(2) lhb hi1 ay(3) ay(1) ay(2)]
  have wr: "w (image_rect ?T) = of_int wi" and hr: "h (image_rect ?T) = of_int hi"
    and xr: "xp (image_rect ?T) = of_int (label_width s - wi) / 2"
    and yr: "yp (image_rect ?T) = of_int (label_height s - hi) / 2"
    unfolding ud(2,3,4,5) by (simp_all only: cx(1,2) cy(1,2))
  have rect: "image_rect ?T =
      \<lparr> xp = of_int (label_width s - wi) / 2, yp = of_int (label_height s - hi) / 2,
        w = of_int wi, h = of_int hi \<rparr>"
    using wr hr xr yr by (cases "image_rect ?T") simp
  have disp: "original_to_display (scale_factor ?T) (fl64 (of_int (zoom ?T) / 100)) (x, y) = (d, e)"
    by (simp add: original_to_display_def zoomT sf_def zf_def d_def e_def)
  have rt: "display_to_original (image_rect ?T) W H
         (of_int d + xp (image_rect ?T), of_int e + yp (image_rect ?T)) = Inr (Some (X, Y))"
    unfolding rect qrectf.simps X_def Y_def
    by (rule display_to_original_inside [OF bx(2) lwb wi1 ax(3) ax(1) ax(2) b_y(2) lhb hi1 ay(3) ay(1) ay(2)])
  have ex: "x - 2 \<le> X \<and> X \<le> x" if "of_int W \<le> w (image_rect ?T)"
  proof -
    from that have "(of_int W :: rat) \<le> of_int wi" by (simp only: wr)
    then have "W \<le> wi" by (simp only: of_int_le_iff)
    then show ?thesis by (rule ax(5))
  qed
  have ey: "y - 2 \<le> Y \<and> Y \<le> y" if "of_int H \<le> h (image_rect ?T)"
  proof -
    from that have "(of_int H :: rat) \<le> of_int hi" by (simp only: hr)
    then have "H \<le> hi" by (simp only: of_int_le_iff)
    then show ?thesis by (rule ay(5))
  qed
  have bX: "\<bar>of_int (X - x)\<bar> < of_int W / w (image_rect ?T) + 2"
    unfolding wr by (rule ax(4))
  have bY: "\<bar>of_int (Y - y)\<bar> < of_int H / h (image_rect ?T) + 2"
    unfolding hr by (rule ay(4))
  show "\<exists>X Y.
       display_to_original (image_rect ?T) W H
         (of_int (fst (original_to_display (scale_factor ?T) (fl64 (of_int (zoom ?T) / 100)) (x, y)))
            + xp (image_rect ?T),
          of_int (snd (original_to_display (scale_factor ?T) (fl64 (of_int (zoom ?T) / 100)) (x, y)))
            + yp (image_rect ?T))
         = Inr (Some (X, Y))
     \<and> \<bar>of_int (X - x)\<bar> < of_int W / w (image_rect ?T) + 2
     \<and> \<bar>of_int (Y - y)\<bar> < of_int H / h (image_rect ?T) + 2
     \<and> (of_int W \<le> w (image_rect ?T) \<longrightarrow> x - 2 \<le> X \<and> X \<le> x)
     \<and> (of_int H \<le> h (image_rect ?T) \<longrightarrow> y - 2 \<le> Y \<and> Y \<le> y)"
    unfolding disp fst_conv snd_conv
    using rt bX bY ex ey by blast
qed

text \<open>A 100 x 100 image in a 200 x 200 label at zoom 100, the point (15, 15).\<close>

theorem round_trip_loss_bounded_by_scale_witness:
  "original_image ((init_tool 200 200)\<lparr> original_image := Some (100, 100) \<rparr>) = Some (100, 100)
   \<and> (0 :: int) \<le> 15 \<and> (15 :: int) < 100
   \<and> (100 :: int) \<le> 2 ^ 20
   \<and> label_width ((init_tool 200 200)\<lparr> original_image := Some (100, 100) \<rparr>) \<le> 2 ^ 20
   \<and> label_height ((init_tool 200 200)\<lparr> original_image := Some (100, 100) \<rparr>) \<le> 2 ^ 20
   \<and> 10 \<le> zoom ((init_tool 200 200)\<lparr> original_image := Some (100, 100) \<rparr>)
   \<and> zoom ((init_tool 200 200)\<lparr> original_image := Some (100, 100) \<rparr>) \<le> 500
   \<and> pixmap_ok (snd (update_display ((init_tool 200 200)\<lparr> original_image := Some (100, 100) \<rparr>)))
   \<and> of_int 100 \<le> w (image_rect (snd (update_display ((init_tool 200 200)\<lparr> original_image := Some (100, 100) \<rparr>))))
   \<and> of_int 100 \<le> h (image_rect (snd (update_display ((init_tool 200 200)\<lparr> original_image := Some (100, 100) \<rparr>))))
   \<and> (\<exists>X Y.
         display_to_original
           (image_rect (snd (update_display ((init_tool 200 200)\<lparr> original_image := Some (100, 100) \<rparr>))))
           100 100
           (of_int (fst (original_to_display
               (scale_factor (snd (update_display ((init_tool 200 200)\<lparr> original_image := Some (100, 100) \<rparr>))))
               (fl64 (of_int (zoom (snd (update_display ((init_tool 200 200)\<lparr> original_image := Some (100, 100) \<rparr>)))) / 100))
               (15, 15)))
              + xp (image_rect (snd (update_display ((init_tool 200 200)\<lparr> original_image := Some (100, 100) \<rparr>)))),
            of_int (snd (original_to_display
               (scale_factor (snd (update_display ((init_tool 200 200)\<lparr> original_image := Some (100, 100) \<rparr>))))
               (fl64 (of_int (zoom (snd (update_display ((init_tool 200 200)\<lparr> original_image := Some (100, 100) \<rparr>)))) / 100))
               (15, 15)))
              + yp (image_rect (snd (update_display ((init_tool 200 200)\<lparr> original_image := Some (100, 100) \<rparr>)))))
           = Inr (Some (X, Y))
       \<and> 15 - 2 \<le> X \<and> X \<le> 15 \<and> 15 - 2 \<le> Y \<and> Y \<le> 15)"
proof -
  let ?S = "(init_tool 200 200)\<lparr> original_image := Some (100, 100) \<rparr>"
  have T: "snd (update_display ?S) =
      ?S\<lparr> scale_factor := 2, image_rect := \<lparr> xp = 0, yp = 0, w = 200, h = 200 \<rparr>, pixmap_ok := True \<rparr>"
    by (simp add: update_display_def init_tool_def int_truediv_def py_int_def py_float_def
        float_mul_def Let_def)
  have h1: "original_image ?S = Some (100, 100)" by simp
  have h2: "label_width ?S \<le> 2 ^ 20" "label_height ?S \<le> 2 ^ 20" "10 \<le> zoom ?S" "zoom ?S \<le> 500"
    by (simp_all add: init_tool_def)
  have h3: "pixmap_ok (snd (update_display ?S))" by (simp add: T)
  have hyp: "original_image ?S = Some (100, 100) \<and> (0 :: int) \<le> 15 \<and> (15 :: int) < 100
      \<and> (0 :: int) \<le> 15 \<and> (15 :: int) < 100
      \<and> (100 :: int) \<le> 2 ^ 20 \<and> (100 :: int) \<le> 2 ^ 20
      \<and> label_width ?S \<le> 2 ^ 20 \<and> label_height ?S \<le> 2 ^ 20
      \<and> 10 \<le> zoom ?S \<and> zoom ?S \<le> 500
      \<and> pixmap_ok (snd (update_display ?S))"
    using h1 h2 h3 by simp
  have big: "of_int 100 \<le> w (image_rect (snd (update_display ?S)))"
       "of_int 100 \<le> h (image_rect (snd (update_display ?S)))"
    by (simp_all add: T)
  from round_trip_loss_bounded_by_scale [of ?S 100 100 15 15, THEN mp, OF hyp]
  obtain X Y where r: "display_to_original (image_rect (snd (update_display ?S))) 100 100
         (of_int (fst (original_to_display (scale_factor (snd (update_display ?S)))
                        (fl64 (of_int (zoom (snd (update_display ?S))) / 100)) (15, 15)))
            + xp (image_rect (snd (update_display ?S))),
          of_int (snd (original_to_display (scale_factor (snd (update_display ?S)))
                        (fl64 (of_int (zoom (snd (update_display ?S))) / 100)) (15, 15)))
            + yp (image_rect (snd (update_display ?S))))
         = Inr (Some (X, Y))"
    and bx: "of_int 100 \<le> w (image_rect (snd (update_display ?S))) \<longrightarrow> 15 - 2 \<le> X \<and> X \<le> 15"
    and b_y: "of_int 100 \<le> h (image_rect (snd (update_display ?S))) \<longrightarrow> 15 - 2 \<le> Y \<and> Y \<le> 15"
    by blast
  from bx big(1) have X: "15 - 2 \<le> X \<and> X \<le> 15" by (rule mp)
  from b_y big(2) have Y: "15 - 2 \<le> Y \<and> Y \<le> 15" by (rule mp)
  have ex: "\<exists>X Y. display_to_original (image_rect (snd (update_display ?S))) 100 100
         (of_int (fst (original_to_display (scale_factor (snd (update_display ?S)))
                        (fl64 (of_int (zoom (snd (update_display ?S))) / 100)) (15, 15)))
            + xp (image_rect (snd (update_display ?S))),
          of_int (snd (original_to_display (scale_factor (snd (update_display ?S)))
                        (fl64 (of_int (zoom (snd (update_display ?S))) / 100)) (15, 15)))
            + yp (image_rect (snd (update_display ?S))))
         = Inr (Some (X, Y))
       \<and> 15 - 2 \<le> X \<and> X \<le> 15 \<and> 15 - 2 \<le> Y \<and> Y \<le> 15"
    using r X Y by blast
  show ?thesis
    apply (intro conjI)
               apply (rule h1)
              apply simp
             apply simp
            apply simp
           apply (rule h2(1))
          apply (rule h2(2))
         apply (rule h2(3))
        apply (rule h2(4))
       apply (rule h3)
      apply (rule big(1))
     apply (rule big(2))
    apply (rule ex)
    done
qed

text \<open>
  Claim C5 as stated fails when the image is shown smaller than it is. A 1024 x 1024
  image in a 128 x 128 label at zoom 100 has scale 1/8; the point (15, 15) is drawn at
  (1, 1) and converts back to (8, 8), seven pixels away.
\<close>

theorem round_trip_within_one_pixel_counterexample:
  "image_rect (snd (update_display ((init_tool 128 128)\<lparr> original_image := Some (1024, 1024) \<rparr>)))
     = \<lparr> xp = 0, yp = 0, w = 128, h = 128 \<rparr>
   \<and> scale_factor (snd (update_display ((init_tool 128 128)\<lparr> original_image := Some (1024, 1024) \<rparr>))) = 1 / 8
   \<and> zoom (snd (update_display ((init_tool 128 128)\<lparr> original_image := Some (1024, 1024) \<rparr>))) = 100
   \<and> pixmap_ok (snd (update_display ((init_tool 128 128)\<lparr> original_image := Some (1024, 1024) \<rparr>)))
   \<and> original_to_display (1 / 8) (of_int 100 / 100) (15, 15) = (1, 1)
   \<and> display_to_original \<lparr> xp = 0, yp = 0, w = 128, h = 128 \<rparr> 1024 1024 (of_int 1 + 0, of_int 1 + 0)
       = Inr (Some (8, 8))
   \<and> \<not> \<bar>8 - 15\<bar> \<le> (1 :: int)"
  by (simp add: update_display_def init_tool_def int_truediv_def py_int_def py_float_def
      float_mul_def float_add_def float_sub_def float_truediv_def fl64_examples Let_def
      original_to_display_def display_to_original_def qrectf_contains_def floor_eq_iff)

lemma fl64_near:
  assumes "2 powi e \<le> \<bar>x\<bar>" and "\<bar>x\<bar> < 2 powi (e + 1)"
    and "\<bar>x - of_int m * 2 powi (e - 52)\<bar> < 2 powi (e - 52) / 2"
  shows "fl64 x = of_int m * 2 powi (e - 52)"
  using round_to_near [of e x m 53] assms by (simp add: fl64_def)

lemma fit_scale_25_18: "fl64 (25 / 18) = 6254999482459022 / 2 ^ 52"
  using fl64_near [of 0 "25 / 18" 6254999482459022] by (simp add: power_int_minus)

lemma zoom_factor_72: "fl64 (18 / 25) = 6485183463413514 / 2 ^ 53"
  using fl64_near [of "- 1" "18 / 25" 6485183463413514] by (simp add: power_int_minus)

lemma scaled_720:
  "fl64 (720 * (6254999482459022 / 2 ^ 52)) = 1000"
  "fl64 (1000 * (6485183463413514 / 2 ^ 53)) = 720"
  "fl64 (576 * (6254999482459022 / 2 ^ 52)) = 800"
  "fl64 (800 * (6485183463413514 / 2 ^ 53)) = 576"
  using fl64_near [of 9 "720 * (6254999482459022 / 2 ^ 52)" "1000 * 2 ^ 43"]
    fl64_near [of 9 "1000 * (6485183463413514 / 2 ^ 53)" "720 * 2 ^ 43"]
    fl64_near [of 9 "576 * (6254999482459022 / 2 ^ 52)" "800 * 2 ^ 43"]
    fl64_near [of 9 "800 * (6485183463413514 / 2 ^ 53)" "576 * 2 ^ 43"]
  by (simp_all add: power_int_minus)

lemma drawn_14:
  "fl64 (14 * (6254999482459022 / 2 ^ 52)) = 10946249094303288 / 2 ^ 49"
  "fl64 (10946249094303288 / 2 ^ 49 * (6485183463413514 / 2 ^ 53)) = 7881299347898367 / 2 ^ 49"
  using fl64_near [of 4 "14 * (6254999482459022 / 2 ^ 52)" 5473124547151644]
    fl64_near [of 3 "10946249094303288 / 2 ^ 49 * (6485183463413514 / 2 ^ 53)" 7881299347898367]
  by (simp_all add: power_int_minus)

lemma back_13:
  "fl64 (13 / 720) = 5204159569405906 / 2 ^ 58"
  "fl64 (5204159569405906 / 2 ^ 58 * 720) = 7318349394477055 / 2 ^ 49"
  "fl64 (13 / 576) = 6505199461757383 / 2 ^ 58"
  "fl64 (6505199461757383 / 2 ^ 58 * 576) = 13"
  using fl64_near [of "- 6" "13 / 720" 5204159569405906]
    fl64_near [of 3 "5204159569405906 / 2 ^ 58 * 720" 7318349394477055]
    fl64_near [of "- 6" "13 / 576" 6505199461757383]
    fl64_near [of 3 "6505199461757383 / 2 ^ 58 * 576" "13 * 2 ^ 49"]
  by (simp_all add: power_int_minus)


lemma two_pixel_steps:
  "fl64 (720 * fl64 (25 / 18)) = 1000"
  "fl64 (1000 * fl64 (18 / 25)) = 720"
  "fl64 (576 * fl64 (25 / 18)) = 800"
  "fl64 (800 * fl64 (18 / 25)) = 576"
  "fl64 (fl64 (14 * fl64 (25 / 18)) * fl64 (18 / 25)) = 7881299347898367 / 2 ^ 49"
  "fl64 (fl64 (13 / 720) * 720) = 7318349394477055 / 2 ^ 49"
  "fl64 (fl64 (13 / 576) * 576) = 13"
  unfolding fit_scale_25_18 zoom_factor_72 scaled_720 drawn_14 back_13 by simp_all

text \<open>
  The bound of two pixels is reached. A 720 x 576 image in a 1000 x 800 label at zoom
  72 is rendered at its own size, 720 x 576 from offset (140, 112). The point (14, 14)
  is drawn at (13, 13), because the product of the rounded scale 25/18 and the rounded
  zoom factor 18/25 falls just below 14; and 13 converts back to 12 horizontally,
  because 13 / 720 * 720 falls just below 13.
\<close>

lemma round_trip_two_pixels_example:
  "image_rect (snd (update_display ((init_tool 1000 800)\<lparr> original_image := Some (576, 720), zoom := 72 \<rparr>))) = \<lparr> xp = 140, yp = 112, w = 720, h = 576 \<rparr>
   \<and> pixmap_ok (snd (update_display ((init_tool 1000 800)\<lparr> original_image := Some (576, 720), zoom := 72 \<rparr>)))
   \<and> original_to_display (scale_factor (snd (update_display ((init_tool 1000 800)\<lparr> original_image := Some (576, 720), zoom := 72 \<rparr>)))) (fl64 (of_int (zoom (snd (update_display ((init_tool 1000 800)\<lparr> original_image := Some (576, 720), zoom := 72 \<rparr>)))) / 100)) (14, 14) = (13, 13)
   \<and> display_to_original \<lparr> xp = 140, yp = 112, w = 720, h = 576 \<rparr> 720 576
         (of_int 13 + 140, of_int 13 + 112) = Inr (Some (12, 13))"
proof -
  have T: "(snd (update_display ((init_tool 1000 800)\<lparr> original_image := Some (576, 720), zoom := 72 \<rparr>))) =
      (init_tool 1000 800)\<lparr> original_image := Some (576, 720), zoom := 72,
        scale_factor := fl64 (25 / 18),
        image_rect := \<lparr> xp = 140, yp = 112, w = 720, h = 576 \<rparr>, pixmap_ok := True \<rparr>"
    by (simp add: update_display_def init_tool_def int_truediv_def py_int_def py_float_def
        float_mul_def two_pixel_steps Let_def)
  have d: "original_to_display (fl64 (25 / 18)) (fl64 (18 / 25)) (14, 14) = (13, 13)"
    by (simp add: original_to_display_def py_float_def float_mul_def two_pixel_steps py_int_def
        floor_eq_iff)
  have b: "display_to_original \<lparr> xp = 140, yp = 112, w = 720, h = 576 \<rparr> 720 576
         (of_int 13 + 140, of_int 13 + 112) = Inr (Some (12, 13))"
    by (simp add: display_to_original_def qrectf_contains_def float_truediv_def py_float_def
        float_add_def float_sub_def float_mul_def two_pixel_steps py_int_def floor_eq_iff)
  show ?thesis unfolding T using d b by (simp add: init_tool_def)
qed

end
